theory Spec2Isabelle
  imports Main
begin

section \<open>The Datum value type of snd/datum\<close>

text \<open>
  The embedding follows the class \<open>Datum\<close> in the revision of \<open>datum.ts\<close> that is carried
  by \<open>src/README.md\<close> (the one that has \<open>subtractDays\<close> and throws \<open>TypeError\<close> and
  \<open>RangeError\<close>). The file \<open>src/datum.ts\<close> is an earlier revision of the same methods:
  it has the same control flow, raises through \<open>assert\<close> at the places where the later
  revision throws, and has no \<open>subtractDays\<close>.
\<close>

subsection \<open>Numbers, errors, strings\<close>

text \<open>
  A TypeScript \<open>number\<close> handed to the library is either integral (\<open>Number.isInteger\<close>
  holds) or not (a fraction, \<open>NaN\<close>, an infinity). The fields of a constructed
  \<open>Datum\<close> have passed \<open>Number.isInteger\<close> and are integers.
\<close>

datatype number = Integral int | NonIntegral

text \<open>
  The exceptions of the source: the class thrown, and which of the source's messages it
  carries. \<open>Error InvariantFailed\<close> is the ``invariant failed. this is a bug'' exception.
\<close>

datatype message =
    YearNotInteger | YearNotInRange
  | MonthNotInteger | MonthNotInRange
  | DayNotInteger | DayNotInRange
  | DayExceedsMonth
  | DaysNotInteger | DaysNegative
  | StrLength | StrFormat
  | InvariantFailed

datatype error = TypeError message | RangeError message | Error message

datatype Weekday = Monday | Tuesday | Wednesday | Thursday | Friday | Saturday | Sunday

record datum =
  year :: int
  month :: int
  day :: int

text \<open>The remainder operator \<open>%\<close> of JavaScript on integers: the sign follows the dividend.\<close>

definition jsRem :: "int \<Rightarrow> int \<Rightarrow> int" where
  "jsRem a b = sgn a * (\<bar>a\<bar> mod \<bar>b\<bar>)"

text \<open>\<open>+\<close> on numbers, as used by \<open>fromDate\<close>.\<close>

fun numberPlus :: "number \<Rightarrow> int \<Rightarrow> number" where
  "numberPlus (Integral a) b = Integral (a + b)"
| "numberPlus NonIntegral b = NonIntegral"

subsection \<open>Assertions\<close>

text \<open>Each assertion hands back the integer it has checked.\<close>

definition assertIsYear :: "number \<Rightarrow> error + int" where
  "assertIsYear n =
     (case n of
        NonIntegral \<Rightarrow> Inl (TypeError YearNotInteger)
      | Integral y \<Rightarrow> if 0 > y \<or> y > 9999 then Inl (TypeError YearNotInRange) else Inr y)"

definition assertIsMonth :: "number \<Rightarrow> error + int" where
  "assertIsMonth n =
     (case n of
        NonIntegral \<Rightarrow> Inl (TypeError MonthNotInteger)
      | Integral m \<Rightarrow> if 1 > m \<or> m > 12 then Inl (TypeError MonthNotInRange) else Inr m)"

definition assertIsDay :: "number \<Rightarrow> error + int" where
  "assertIsDay n =
     (case n of
        NonIntegral \<Rightarrow> Inl (TypeError DayNotInteger)
      | Integral d \<Rightarrow> if 1 > d \<or> d > 31 then Inl (TypeError DayNotInRange) else Inr d)"

subsection \<open>Calendar tables\<close>

definition isLeapYear :: "number \<Rightarrow> error + bool" where
  "isLeapYear n =
     (case assertIsYear n of
        Inl e \<Rightarrow> Inl e
      | Inr y \<Rightarrow> Inr ((jsRem y 4 = 0 \<and> jsRem y 100 \<noteq> 0) \<or> jsRem y 400 = 0))"

definition getDaysInMonth :: "number \<Rightarrow> number \<Rightarrow> error + int" where
  "getDaysInMonth yn mn =
     (case assertIsYear yn of
        Inl e \<Rightarrow> Inl e
      | Inr y \<Rightarrow>
          (case assertIsMonth mn of
             Inl e \<Rightarrow> Inl e
           | Inr m \<Rightarrow>
               (case isLeapYear yn of
                  Inl e \<Rightarrow> Inl e
                | Inr leap \<Rightarrow>
                    Inr ([0, 31, (if leap then 29 else 28), 31, 30, 31, 30, 31, 31, 30, 31, 30, 31]
                          ! nat m))))"

definition getDaysInYear :: "number \<Rightarrow> error + int" where
  "getDaysInYear n =
     (case assertIsYear n of
        Inl e \<Rightarrow> Inl e
      | Inr y \<Rightarrow> (case isLeapYear n of Inl e \<Rightarrow> Inl e | Inr leap \<Rightarrow> Inr (if leap then 366 else 365)))"

subsection \<open>Construction\<close>

definition Datum_new :: "number \<Rightarrow> number \<Rightarrow> number \<Rightarrow> error + datum" where
  "Datum_new yn mn dn =
     (case assertIsYear yn of
        Inl e \<Rightarrow> Inl e
      | Inr y \<Rightarrow>
          (case assertIsMonth mn of
             Inl e \<Rightarrow> Inl e
           | Inr m \<Rightarrow>
               (case assertIsDay dn of
                  Inl e \<Rightarrow> Inl e
                | Inr d \<Rightarrow>
                    (case getDaysInMonth yn mn of
                       Inl e \<Rightarrow> Inl e
                     | Inr daysInMonth \<Rightarrow>
                         if d > daysInMonth then Inl (RangeError DayExceedsMonth)
                         else Inr \<lparr>year = y, month = m, day = d\<rparr>))))"

text \<open>
  The host's \<open>Date\<close>, as far as \<open>fromDate\<close> reads it: the results of \<open>getFullYear()\<close>,
  \<open>getMonth()\<close> (0-indexed) and \<open>getDate()\<close>; all three are \<open>NaN\<close> on an invalid date.
\<close>

record hostDate =
  getFullYear :: number
  getMonth :: number
  getDate :: number

definition fromDate :: "hostDate \<Rightarrow> error + datum" where
  "fromDate date = Datum_new (getFullYear date) (numberPlus (getMonth date) 1) (getDate date)"

subsection \<open>String conversion\<close>

text \<open>
  Strings are lists of 8-bit characters; the digits and the hyphen, the only characters the
  format knows, are among them.
\<close>

definition digitChar :: "nat \<Rightarrow> char" where
  "digitChar n = ''0123456789'' ! n"

definition isDigit :: "char \<Rightarrow> bool" where
  "isDigit c = (c \<in> set ''0123456789'')"

definition digitValue :: "char \<Rightarrow> nat" where
  "digitValue c = (of_char c) - 48"

text \<open>\<open>Number.prototype.toString()\<close> on an integer: decimal digits, a minus sign when negative.\<close>

fun natDigits :: "nat \<Rightarrow> string" where
  "natDigits n = (if n < 10 then [digitChar n] else natDigits (n div 10) @ [digitChar (n mod 10)])"

declare natDigits.simps [simp del]

definition numberToString :: "int \<Rightarrow> string" where
  "numberToString i = (if i < 0 then CHR ''-'' # natDigits (nat (- i)) else natDigits (nat i))"

function padWithLeadingZeros :: "string \<Rightarrow> nat \<Rightarrow> string" where
  "padWithLeadingZeros str targetLength =
     (if length str < targetLength then padWithLeadingZeros (CHR ''0'' # str) targetLength
      else str)"
  by pat_completeness auto
termination
  by (relation "measure (\<lambda>(str, targetLength). targetLength - length str)") auto

declare padWithLeadingZeros.simps [simp del]

definition toString :: "datum \<Rightarrow> string" where
  "toString d =
     padWithLeadingZeros (numberToString (year d)) 4 @ ''-'' @
     padWithLeadingZeros (numberToString (month d)) 2 @ ''-'' @
     padWithLeadingZeros (numberToString (day d)) 2"

text \<open>
  \<open>parseInt(s, 10)\<close>: leading white space is skipped, a sign is read, and the longest
  prefix of decimal digits is the value; \<open>NaN\<close> when that prefix is empty.
\<close>

definition isSpace :: "char \<Rightarrow> bool" where
  "isSpace c = (of_char c \<in> {9, 10, 11, 12, 13, 32, 160 :: nat})"

definition digitsValue :: "string \<Rightarrow> nat" where
  "digitsValue ds = foldl (\<lambda>acc c. 10 * acc + digitValue c) 0 ds"

definition parseInt :: "string \<Rightarrow> number" where
  "parseInt s =
     (let t = dropWhile isSpace s;
          neg = (take 1 t = ''-'');
          u = (if take 1 t = ''-'' \<or> take 1 t = ''+'' then drop 1 t else t);
          ds = takeWhile isDigit u
      in if ds = [] then NonIntegral
         else Integral ((if neg then - 1 else 1) * int (digitsValue ds)))"

text \<open>
  \<open>str.match(/^(\d{4})\-(\d\d)\-(\d\d)$/)\<close>: the three captured groups, or nothing.
\<close>

definition REGEX_match :: "string \<Rightarrow> (string \<times> string \<times> string) option" where
  "REGEX_match str =
     (let g1 = take 4 str; r1 = drop 4 str;
          g2 = take 2 (drop 1 r1); r2 = drop 3 r1;
          g3 = take 2 (drop 1 r2); r3 = drop 3 r2
      in if length g1 = 4 \<and> list_all isDigit g1 \<and> take 1 r1 = ''-'' \<and>
            length g2 = 2 \<and> list_all isDigit g2 \<and> take 1 r2 = ''-'' \<and>
            length g3 = 2 \<and> list_all isDigit g3 \<and> r3 = []
         then Some (g1, g2, g3) else None)"

definition fromString :: "string \<Rightarrow> error + datum" where
  "fromString str =
     (if length str \<noteq> 10 then Inl (RangeError StrLength)
      else (case REGEX_match str of
              None \<Rightarrow> Inl (RangeError StrFormat)
            | Some (g1, g2, g3) \<Rightarrow> Datum_new (parseInt g1) (parseInt g2) (parseInt g3)))"

text \<open>
  The format of the specification, position by position: ten characters, hyphens at
  positions 4 and 7, decimal digits elsewhere.
\<close>

definition matchesFormat :: "string \<Rightarrow> bool" where
  "matchesFormat s =
     (length s = 10 \<and> (\<forall>i \<in> {0, 1, 2, 3, 5, 6, 8, 9}. isDigit (s ! i)) \<and>
      s ! 4 = CHR ''-'' \<and> s ! 7 = CHR ''-'')"

text \<open>
  The \<open><\<close> of JavaScript on strings: code units are compared from the left, and a proper
  prefix is smaller.
\<close>

fun stringLess :: "string \<Rightarrow> string \<Rightarrow> bool" where
  "stringLess [] [] = False"
| "stringLess [] (y # ys) = True"
| "stringLess (x # xs) [] = False"
| "stringLess (x # xs) (y # ys) =
     ((of_char x :: nat) < of_char y \<or> (x = y \<and> stringLess xs ys))"

text \<open>The \<open>k\<close> low decimal digits of a number, used to describe the padded fields.\<close>

fun fixedDigits :: "nat \<Rightarrow> nat \<Rightarrow> string" where
  "fixedDigits 0 n = []"
| "fixedDigits (Suc k) n = fixedDigits k (n div 10) @ [digitChar (n mod 10)]"

subsection \<open>Comparison\<close>

definition isEqual :: "datum \<Rightarrow> datum \<Rightarrow> bool" where
  "isEqual this other =
     (year this = year other \<and> month this = month other \<and> day this = day other)"

definition isBefore :: "datum \<Rightarrow> datum \<Rightarrow> bool" where
  "isBefore this other =
     (year this < year other \<or>
      (year this = year other \<and> month this < month other) \<or>
      (year this = year other \<and> month this = month other \<and> day this < day other))"

definition isAfter :: "datum \<Rightarrow> datum \<Rightarrow> bool" where
  "isAfter this other =
     (year this > year other \<or>
      (year this = year other \<and> month this > month other) \<or>
      (year this = year other \<and> month this = month other \<and> day this > day other))"

text \<open>The \<open>for ... of\<close> loops of \<open>min\<close> and \<open>max\<close> over a finite iterable, \<open>null\<close> as \<open>None\<close>.\<close>

fun min_loop :: "datum option \<Rightarrow> datum list \<Rightarrow> datum option" where
  "min_loop mn [] = mn"
| "min_loop mn (datum # datums) =
     min_loop (case mn of
                 None \<Rightarrow> Some datum
               | Some m \<Rightarrow> if isBefore datum m then Some datum else Some m) datums"

definition Datum_min :: "datum list \<Rightarrow> datum option" where
  "Datum_min datums = min_loop None datums"

fun max_loop :: "datum option \<Rightarrow> datum list \<Rightarrow> datum option" where
  "max_loop mx [] = mx"
| "max_loop mx (datum # datums) =
     max_loop (case mx of
                 None \<Rightarrow> Some datum
               | Some m \<Rightarrow> if isAfter datum m then Some datum else Some m) datums"

definition Datum_max :: "datum list \<Rightarrow> datum option" where
  "Datum_max datums = max_loop None datums"

subsection \<open>Day-count arithmetic\<close>

definition daysUntilFirstDayOfNextMonth :: "datum \<Rightarrow> error + int" where
  "daysUntilFirstDayOfNextMonth this =
     (case getDaysInMonth (Integral (year this)) (Integral (month this)) of
        Inl e \<Rightarrow> Inl e
      | Inr n \<Rightarrow> Inr (n - day this + 1))"

text \<open>
  The block ``move to first day of next month'', which \<open>addDays\<close> and \<open>deltaDays\<close> both
  contain.
\<close>

definition firstDayOfNextMonth :: "datum \<Rightarrow> error + datum" where
  "firstDayOfNextMonth current =
     (if month current = 12
      then Datum_new (Integral (year current + 1)) (Integral 1) (Integral 1)
      else Datum_new (Integral (year current)) (Integral (month current + 1)) (Integral 1))"

text \<open>The block ``move to last day of previous month'' of \<open>subtractDays\<close>.\<close>

definition lastDayOfPreviousMonth :: "datum \<Rightarrow> error + datum" where
  "lastDayOfPreviousMonth current =
     (if month current = 1
      then (case getDaysInMonth (Integral (year current - 1)) (Integral 12) of
              Inl e \<Rightarrow> Inl e
            | Inr lastDayInPreviousMonth \<Rightarrow>
                Datum_new (Integral (year current - 1)) (Integral 12)
                  (Integral lastDayInPreviousMonth))
      else (case getDaysInMonth (Integral (year current)) (Integral (month current - 1)) of
              Inl e \<Rightarrow> Inl e
            | Inr lastDayInPreviousMonth \<Rightarrow>
                Datum_new (Integral (year current)) (Integral (month current - 1))
                  (Integral lastDayInPreviousMonth)))"

subsection \<open>Calendar validity\<close>

text \<open>
  The invariant of the data model, in the words of the specification: the year is in
  0..9999, the month in 1..12, and the day in 1..\<open>daysInMonth\<close>, February having 29
  days in a leap year. \<open>leapYear\<close> and \<open>daysInMonth\<close> are the specification's functions
  on integers; the lemmas below show that the code's tables compute them.
\<close>

definition leapYear :: "int \<Rightarrow> bool" where
  "leapYear y = ((y mod 4 = 0 \<and> y mod 100 \<noteq> 0) \<or> y mod 400 = 0)"

definition daysInMonth :: "int \<Rightarrow> int \<Rightarrow> int" where
  "daysInMonth y m =
     (if m = 2 then (if leapYear y then 29 else 28)
      else if m = 4 \<or> m = 6 \<or> m = 9 \<or> m = 11 then 30 else 31)"

definition valid_datum :: "datum \<Rightarrow> bool" where
  "valid_datum d =
     (0 \<le> year d \<and> year d \<le> 9999 \<and> 1 \<le> month d \<and> month d \<le> 12 \<and>
      1 \<le> day d \<and> day d \<le> daysInMonth (year d) (month d))"

lemma jsRem_nonneg: "0 \<le> a \<Longrightarrow> 0 < b \<Longrightarrow> jsRem a b = a mod b"
  by (cases "a = 0") (simp_all add: jsRem_def)

lemma isLeapYear_Integral:
  "isLeapYear (Integral y) = (if 0 \<le> y \<and> y \<le> 9999 then Inr (leapYear y) else Inl (TypeError YearNotInRange))"
  by (auto simp: isLeapYear_def assertIsYear_def leapYear_def jsRem_nonneg)

lemma month_cases:
  "1 \<le> m \<Longrightarrow> m \<le> 12 \<Longrightarrow>
   m = 1 \<or> m = 2 \<or> m = 3 \<or> m = 4 \<or> m = 5 \<or> m = 6 \<or> m = 7 \<or> m = 8 \<or> m = 9 \<or> m = 10 \<or> m = 11 \<or> m = (12::int)"
  by arith

lemma getDaysInMonth_Integral:
  "getDaysInMonth (Integral y) (Integral m) =
     (if 0 \<le> y \<and> y \<le> 9999
      then (if 1 \<le> m \<and> m \<le> 12 then Inr (daysInMonth y m) else Inl (TypeError MonthNotInRange))
      else Inl (TypeError YearNotInRange))"
proof (cases "0 \<le> y \<and> y \<le> 9999 \<and> 1 \<le> m \<and> m \<le> 12")
  case True
  then have "m = 1 \<or> m = 2 \<or> m = 3 \<or> m = 4 \<or> m = 5 \<or> m = 6 \<or> m = 7 \<or> m = 8 \<or> m = 9 \<or> m = 10 \<or> m = 11 \<or> m = 12"
    using month_cases by blast
  with True show ?thesis
    by (auto simp: getDaysInMonth_def assertIsYear_def assertIsMonth_def isLeapYear_Integral daysInMonth_def)
next
  case False
  then show ?thesis
    by (auto simp: getDaysInMonth_def assertIsYear_def assertIsMonth_def)
qed

lemma daysInMonth_bounds: "28 \<le> daysInMonth y m \<and> daysInMonth y m \<le> 31"
  by (simp add: daysInMonth_def)

lemma Datum_new_Integral:
  "Datum_new (Integral y) (Integral m) (Integral d) =
     (if 0 \<le> y \<and> y \<le> 9999
      then (if 1 \<le> m \<and> m \<le> 12
            then (if 1 \<le> d \<and> d \<le> 31
                  then (if d > daysInMonth y m then Inl (RangeError DayExceedsMonth)
                        else Inr \<lparr>year = y, month = m, day = d\<rparr>)
                  else Inl (TypeError DayNotInRange))
            else Inl (TypeError MonthNotInRange))
      else Inl (TypeError YearNotInRange))"
  by (auto simp: Datum_new_def assertIsYear_def assertIsMonth_def assertIsDay_def getDaysInMonth_Integral)

lemma Datum_new_valid: "Datum_new yn mn dn = Inr r \<Longrightarrow> valid_datum r"
proof (cases yn; cases mn; cases dn)
  fix y m d
  assume "Datum_new yn mn dn = Inr r" "yn = Integral y" "mn = Integral m" "dn = Integral d"
  then show ?thesis
    by (auto simp: Datum_new_Integral valid_datum_def split: if_splits)
qed (auto simp: Datum_new_def assertIsYear_def assertIsMonth_def assertIsDay_def split: if_splits sum.splits)

lemma daysUntil_eq:
  "daysUntilFirstDayOfNextMonth c =
     (if 0 \<le> year c \<and> year c \<le> 9999
      then (if 1 \<le> month c \<and> month c \<le> 12
            then Inr (daysInMonth (year c) (month c) - day c + 1)
            else Inl (TypeError MonthNotInRange))
      else Inl (TypeError YearNotInRange))"
  by (simp add: daysUntilFirstDayOfNextMonth_def getDaysInMonth_Integral)

lemma firstDayOfNextMonth_eq:
  "firstDayOfNextMonth c =
     (if month c = 12
      then (if 0 \<le> year c + 1 \<and> year c + 1 \<le> 9999
            then Inr \<lparr>year = year c + 1, month = 1, day = 1\<rparr>
            else Inl (TypeError YearNotInRange))
      else (if 0 \<le> year c \<and> year c \<le> 9999
            then (if 1 \<le> month c + 1 \<and> month c + 1 \<le> 12
                  then Inr \<lparr>year = year c, month = month c + 1, day = 1\<rparr>
                  else Inl (TypeError MonthNotInRange))
            else Inl (TypeError YearNotInRange)))"
  by (auto simp: firstDayOfNextMonth_def Datum_new_Integral daysInMonth_def)


subsection \<open>The loops of the day-count arithmetic\<close>

text \<open>
  Every loop is \<open>while (true)\<close> in the source. Each turn constructs the first day of
  the next month (or the last day of the previous one), and the constructor refuses years
  outside 0..9999, so the number of months left below year 10000 (above year 0) bounds
  the number of turns.
\<close>

function addDays_loop :: "datum \<Rightarrow> int \<Rightarrow> error + datum" where
  "addDays_loop current daysToAdd =
     (case daysUntilFirstDayOfNextMonth current of
        Inl e \<Rightarrow> Inl e
      | Inr daysUntilNextMonth \<Rightarrow>
          if daysToAdd < daysUntilNextMonth
          then Datum_new (Integral (year current)) (Integral (month current))
                 (Integral (day current + daysToAdd))
          else (case firstDayOfNextMonth current of
                  Inl e \<Rightarrow> Inl e
                | Inr next \<Rightarrow> addDays_loop next (daysToAdd - daysUntilNextMonth)))"
  by pat_completeness auto
termination
  by (relation "measure (\<lambda>(current, daysToAdd). nat (120012 - (12 * year current + month current)))")
     (auto simp: daysUntil_eq firstDayOfNextMonth_eq split: if_splits)


definition addDays :: "datum \<Rightarrow> number \<Rightarrow> error + datum" where
  "addDays this days =
     (case days of
        NonIntegral \<Rightarrow> Inl (TypeError DaysNotInteger)
      | Integral n \<Rightarrow> if 0 > n then Inl (RangeError DaysNegative) else addDays_loop this n)"

lemma lastDayOfPreviousMonth_eq:
  "lastDayOfPreviousMonth c =
     (if month c = 1
      then (if 0 \<le> year c - 1 \<and> year c - 1 \<le> 9999
            then Inr \<lparr>year = year c - 1, month = 12, day = 31\<rparr>
            else Inl (TypeError YearNotInRange))
      else (if 0 \<le> year c \<and> year c \<le> 9999
            then (if 1 \<le> month c - 1 \<and> month c - 1 \<le> 12
                  then Inr \<lparr>year = year c, month = month c - 1,
                             day = daysInMonth (year c) (month c - 1)\<rparr>
                  else Inl (TypeError MonthNotInRange))
            else Inl (TypeError YearNotInRange)))"
  using daysInMonth_bounds [of "year c" "month c - 1"]
  by (auto simp: lastDayOfPreviousMonth_def getDaysInMonth_Integral Datum_new_Integral
        daysInMonth_def)

function subtractDays_loop :: "datum \<Rightarrow> int \<Rightarrow> error + datum" where
  "subtractDays_loop current daysToSubtract =
     (let daysSincePreviousMonth = day current
      in if daysToSubtract < daysSincePreviousMonth
         then Datum_new (Integral (year current)) (Integral (month current))
                (Integral (day current - daysToSubtract))
         else (case lastDayOfPreviousMonth current of
                 Inl e \<Rightarrow> Inl e
               | Inr previous \<Rightarrow>
                   subtractDays_loop previous (daysToSubtract - daysSincePreviousMonth)))"
  by pat_completeness auto
termination
  by (relation "measure (\<lambda>(current, daysToSubtract). nat (12 * year current + month current))")
     (auto simp: lastDayOfPreviousMonth_eq split: if_splits)

definition subtractDays :: "datum \<Rightarrow> number \<Rightarrow> error + datum" where
  "subtractDays this days =
     (case days of
        NonIntegral \<Rightarrow> Inl (TypeError DaysNotInteger)
      | Integral n \<Rightarrow> if 0 > n then Inl (RangeError DaysNegative) else subtractDays_loop this n)"

function deltaDays_loop :: "datum \<Rightarrow> datum \<Rightarrow> int \<Rightarrow> error + int" where
  "deltaDays_loop current until delta =
     (if year current = year until \<and> month current = month until
      then Inr (delta + \<bar>day current - day until\<bar>)
      else (case daysUntilFirstDayOfNextMonth current of
              Inl e \<Rightarrow> Inl e
            | Inr n \<Rightarrow>
                (case firstDayOfNextMonth current of
                   Inl e \<Rightarrow> Inl e
                 | Inr next \<Rightarrow> deltaDays_loop next until (delta + n))))"
  by pat_completeness auto
termination
  by (relation "measure (\<lambda>(current, until, delta).
                  nat (120012 - (12 * year current + month current)))")
     (auto simp: daysUntil_eq firstDayOfNextMonth_eq split: if_splits)

definition deltaDays :: "datum \<Rightarrow> datum \<Rightarrow> error + int" where
  "deltaDays this other =
     (if isEqual this other then Inr 0
      else (let until = (if isAfter this other then this else other);
                current = (if isBefore this other then this else other)
            in if isEqual until current then Inl (Error InvariantFailed)
               else deltaDays_loop current until 0))"

text \<open>
  Two compositions that the laws of the specification speak about: \<open>d.addDays(n).subtractDays(n)\<close>
  and \<open>a.addDays(a.deltaDays(b))\<close>. An exception of the first call is the exception of the
  whole expression.
\<close>

definition addDays_then_subtractDays :: "datum \<Rightarrow> number \<Rightarrow> error + datum" where
  "addDays_then_subtractDays d n =
     (case addDays d n of Inl e \<Rightarrow> Inl e | Inr d' \<Rightarrow> subtractDays d' n)"

definition addDays_deltaDays :: "datum \<Rightarrow> datum \<Rightarrow> error + datum" where
  "addDays_deltaDays a b =
     (case deltaDays a b of Inl e \<Rightarrow> Inl e | Inr n \<Rightarrow> addDays a (Integral n))"

subsection \<open>Weekday\<close>

definition weekday :: "datum \<Rightarrow> error + Weekday" where
  "weekday this =
     (case Datum_new (Integral 2019) (Integral 8) (Integral 26) of
        Inl e \<Rightarrow> Inl e
      | Inr referenceMonday \<Rightarrow>
          (case deltaDays this referenceMonday of
             Inl e \<Rightarrow> Inl e
           | Inr delta \<Rightarrow>
               (let weekdayIndex = jsRem delta 7
                in if isBefore this referenceMonday
                   then (if weekdayIndex = 6 then Inr Tuesday
                         else if weekdayIndex = 5 then Inr Wednesday
                         else if weekdayIndex = 4 then Inr Thursday
                         else if weekdayIndex = 3 then Inr Friday
                         else if weekdayIndex = 2 then Inr Saturday
                         else if weekdayIndex = 1 then Inr Sunday
                         else if weekdayIndex = 0 then Inr Monday
                         else Inl (Error InvariantFailed))
                   else (if weekdayIndex = 0 then Inr Monday
                         else if weekdayIndex = 1 then Inr Tuesday
                         else if weekdayIndex = 2 then Inr Wednesday
                         else if weekdayIndex = 3 then Inr Thursday
                         else if weekdayIndex = 4 then Inr Friday
                         else if weekdayIndex = 5 then Inr Saturday
                         else if weekdayIndex = 6 then Inr Sunday
                         else Inl (Error InvariantFailed)))))"

text \<open>
  The values of the enumeration \<open>Weekday\<close> (\<open>Monday = 0\<close> ... \<open>Sunday = 6\<close>), and the
  reference date that \<open>weekday\<close> constructs.
\<close>

fun weekdayOrdinal :: "Weekday \<Rightarrow> int" where
  "weekdayOrdinal Monday = 0"
| "weekdayOrdinal Tuesday = 1"
| "weekdayOrdinal Wednesday = 2"
| "weekdayOrdinal Thursday = 3"
| "weekdayOrdinal Friday = 4"
| "weekdayOrdinal Saturday = 5"
| "weekdayOrdinal Sunday = 6"

definition referenceMonday :: datum where
  "referenceMonday = \<lparr>year = 2019, month = 8, day = 26\<rparr>"

subsection \<open>Day numbers\<close>

text \<open>
  A linear count of days, used only to state and prove the laws of the day-count
  arithmetic: 0000-01-01 has number 1, and each calendar day has the number of its
  predecessor plus one.
\<close>

definition leapsBefore :: "int \<Rightarrow> int" where
  "leapsBefore y = (y + 3) div 4 - (y + 99) div 100 + (y + 399) div 400"

definition daysBeforeYear :: "int \<Rightarrow> int" where
  "daysBeforeYear y = 365 * y + leapsBefore y"

definition daysBeforeMonth :: "int \<Rightarrow> int \<Rightarrow> int" where
  "daysBeforeMonth y m =
     [0, 0, 31, 59, 90, 120, 151, 181, 212, 243, 273, 304, 334] ! nat m +
     (if 2 < m \<and> leapYear y then 1 else 0)"

definition dayNumber :: "datum \<Rightarrow> int" where
  "dayNumber d = daysBeforeYear (year d) + daysBeforeMonth (year d) (month d) + day d"

lemma div_step:
  fixes y k :: int
  assumes k: "0 < k"
  shows "(y + k) div k = (y + (k - 1)) div k + (if y mod k = 0 then 1 else 0)"
proof -
  define q where "q = y div k"
  define r where "r = y mod k"
  have y: "y = k * q + r" and r: "0 \<le> r" "r < k"
    using k by (simp_all add: q_def r_def)
  have "y + k = k * (q + 1) + r" using y by (simp add: algebra_simps)
  then have up: "(y + k) div k = q + 1"
    using r by (intro int_div_pos_eq [where r = r]) simp_all
  show ?thesis
  proof (cases "r = 0")
    case True
    have "y + (k - 1) = k * q + (k - 1)" using y True by simp
    then have "(y + (k - 1)) div k = q"
      using k by (intro int_div_pos_eq [where r = "k - 1"]) simp_all
    with up True show ?thesis by (simp add: r_def)
  next
    case False
    have "y + (k - 1) = k * (q + 1) + (r - 1)" using y by (simp add: algebra_simps)
    then have "(y + (k - 1)) div k = q + 1"
      using k r False by (intro int_div_pos_eq [where r = "r - 1"]) simp_all
    with up False show ?thesis by (simp add: r_def)
  qed
qed

lemma leapsBefore_step: "leapsBefore (y + 1) = leapsBefore y + (if leapYear y then 1 else 0)"
proof -
  have a: "(y + 1 + 3) div 4 = (y + 3) div 4 + (if y mod 4 = 0 then 1 else 0)"
    using div_step [of 4 y] by simp
  have b: "(y + 1 + 99) div 100 = (y + 99) div 100 + (if y mod 100 = 0 then 1 else 0)"
    using div_step [of 100 y] by simp
  have c: "(y + 1 + 399) div 400 = (y + 399) div 400 + (if y mod 400 = 0 then 1 else 0)"
    using div_step [of 400 y] by simp
  have d: "y mod 400 = 0 \<Longrightarrow> y mod 100 = 0" "y mod 100 = 0 \<Longrightarrow> y mod 4 = 0"
    by (auto simp: mod_eq_0_iff_dvd elim: dvd_trans [rotated])
  show ?thesis
    unfolding leapsBefore_def leapYear_def a b c using d by auto
qed

lemma daysBeforeYear_step:
  "daysBeforeYear (y + 1) = daysBeforeYear y + (if leapYear y then 366 else 365)"
  by (simp add: daysBeforeYear_def leapsBefore_step)

lemma daysBeforeMonth_step:
  "1 \<le> m \<Longrightarrow> m < 12 \<Longrightarrow> daysBeforeMonth y (m + 1) = daysBeforeMonth y m + daysInMonth y m"
  using month_cases [of m] by (auto simp: daysBeforeMonth_def daysInMonth_def)

lemma daysBeforeMonth_December:
  "daysBeforeMonth y 12 + 31 = (if leapYear y then 366 else 365)"
  by (simp add: daysBeforeMonth_def)

declare addDays_loop.simps [simp del] subtractDays_loop.simps [simp del] deltaDays_loop.simps [simp del]

lemma firstDayOfNextMonth_dayNumber:
  assumes "valid_datum c" "firstDayOfNextMonth c = Inr n"
  shows "valid_datum n"
    and "dayNumber n = dayNumber c + (daysInMonth (year c) (month c) - day c + 1)"
proof -
  have "1 \<le> daysInMonth (year n) (month n)"
    using daysInMonth_bounds [of "year n" "month n"] by simp
  then show "valid_datum n"
    using assms by (auto simp: firstDayOfNextMonth_eq valid_datum_def split: if_splits)
  show "dayNumber n = dayNumber c + (daysInMonth (year c) (month c) - day c + 1)"
  proof (cases "month c = 12")
    case True
    then have n: "n = \<lparr>year = year c + 1, month = 1, day = 1\<rparr>"
      using assms by (auto simp: firstDayOfNextMonth_eq split: if_splits)
    have "daysBeforeMonth (year c + 1) 1 = 0" by (simp add: daysBeforeMonth_def)
    moreover have "daysInMonth (year c) 12 = 31" by (simp add: daysInMonth_def)
    ultimately show ?thesis
      using daysBeforeMonth_December [of "year c"] True
      by (simp add: n dayNumber_def daysBeforeYear_step)
  next
    case False
    then have n: "n = \<lparr>year = year c, month = month c + 1, day = 1\<rparr>"
      using assms by (auto simp: firstDayOfNextMonth_eq split: if_splits)
    have "1 \<le> month c" "month c < 12"
      using assms(1) False by (auto simp: valid_datum_def)
    then show ?thesis
      by (simp add: n dayNumber_def daysBeforeMonth_step)
  qed
qed

lemma lastDayOfPreviousMonth_dayNumber:
  assumes "valid_datum c" "lastDayOfPreviousMonth c = Inr p"
  shows "valid_datum p" and "dayNumber p = dayNumber c - day c"
proof -
  have "1 \<le> daysInMonth (year c) (month c - 1)" "daysInMonth (year c - 1) 12 = 31"
    using daysInMonth_bounds [of "year c" "month c - 1"] by (simp_all add: daysInMonth_def)
  then show "valid_datum p"
    using assms by (auto simp: lastDayOfPreviousMonth_eq valid_datum_def split: if_splits)
  show "dayNumber p = dayNumber c - day c"
  proof (cases "month c = 1")
    case True
    then have p: "p = \<lparr>year = year c - 1, month = 12, day = 31\<rparr>"
      using assms by (auto simp: lastDayOfPreviousMonth_eq split: if_splits)
    have "daysBeforeMonth (year c) 1 = 0" by (simp add: daysBeforeMonth_def)
    then show ?thesis
      using daysBeforeMonth_December [of "year c - 1"] daysBeforeYear_step [of "year c - 1"] True
      by (simp add: p dayNumber_def)
  next
    case False
    then have p: "p = \<lparr>year = year c, month = month c - 1, day = daysInMonth (year c) (month c - 1)\<rparr>"
      using assms by (auto simp: lastDayOfPreviousMonth_eq split: if_splits)
    have "1 \<le> month c - 1" "month c - 1 < 12"
      using assms(1) False by (auto simp: valid_datum_def)
    then show ?thesis
      using daysBeforeMonth_step [of "month c - 1" "year c"]
      by (simp add: p dayNumber_def)
  qed
qed

lemma addDays_loop_sound:
  "valid_datum c \<Longrightarrow> 0 \<le> k \<Longrightarrow> addDays_loop c k = Inr r \<Longrightarrow>
   valid_datum r \<and> dayNumber r = dayNumber c + k"
proof (induction c k rule: addDays_loop.induct)
  case (1 current daysToAdd)
  define s where "s = daysInMonth (year current) (month current) - day current + 1"
  have v: "0 \<le> year current" "year current \<le> 9999" "1 \<le> month current" "month current \<le> 12"
    "1 \<le> day current" "day current \<le> daysInMonth (year current) (month current)"
    using "1.prems"(1) by (auto simp: valid_datum_def)
  have du: "daysUntilFirstDayOfNextMonth current = Inr s"
    using v by (simp add: daysUntil_eq s_def)
  have s1: "1 \<le> s" using v by (simp add: s_def)
  show ?case
  proof (cases "daysToAdd < s")
    case True
    have le31: "day current + daysToAdd \<le> 31"
      using True daysInMonth_bounds [of "year current" "month current"] by (simp add: s_def)
    have "addDays_loop current daysToAdd =
            Inr \<lparr>year = year current, month = month current, day = day current + daysToAdd\<rparr>"
      using True v "1.prems"(2) le31
      by (subst addDays_loop.simps) (simp add: du Datum_new_Integral s_def)
    with "1.prems"(3) have "r = \<lparr>year = year current, month = month current, day = day current + daysToAdd\<rparr>"
      by simp
    then show ?thesis
      using v True "1.prems"(2) by (simp add: valid_datum_def dayNumber_def s_def)
  next
    case False
    have unf: "addDays_loop current daysToAdd =
                 (case firstDayOfNextMonth current of Inl e \<Rightarrow> Inl e
                  | Inr next \<Rightarrow> addDays_loop next (daysToAdd - s))"
      using False by (subst addDays_loop.simps) (simp add: du)
    with "1.prems"(3) obtain n where n: "firstDayOfNextMonth current = Inr n"
      and rec: "addDays_loop n (daysToAdd - s) = Inr r"
      by (auto split: sum.splits)
    have vn: "valid_datum n" and dn: "dayNumber n = dayNumber current + s"
      using firstDayOfNextMonth_dayNumber [OF "1.prems"(1) n] by (simp_all add: s_def)
    have "valid_datum r \<and> dayNumber r = dayNumber n + (daysToAdd - s)"
      using "1.IH" [OF du False n vn _ rec] False by simp
    then show ?thesis using dn by simp
  qed
qed

subsection \<open>Day numbers follow the calendar order\<close>

lemma daysBeforeYear_mono:
  assumes "y \<le> y'"
  shows "daysBeforeYear y \<le> daysBeforeYear y'"
  using assms
proof (induction y' rule: int_ge_induct)
  case base
  show ?case by simp
next
  case (step i)
  then show ?case by (simp add: daysBeforeYear_step)
qed

lemma daysBeforeMonth_mono:
  assumes "1 \<le> m" "m \<le> m'" "m' \<le> 12"
  shows "daysBeforeMonth y m \<le> daysBeforeMonth y m'"
  using assms(2,1,3)
proof (induction m' rule: int_ge_induct)
  case base
  show ?case by simp
next
  case (step i)
  then show ?case
    using daysBeforeMonth_step [of i y] daysInMonth_bounds [of y i] by simp
qed

lemma daysBeforeMonth_nonneg: "1 \<le> m \<Longrightarrow> m \<le> 12 \<Longrightarrow> 0 \<le> daysBeforeMonth y m"
  using daysBeforeMonth_mono [of 1 m y] by (simp add: daysBeforeMonth_def)

lemma daysBeforeMonth_end:
  assumes "1 \<le> m" "m \<le> 12"
  shows "daysBeforeMonth y m + daysInMonth y m \<le> (if leapYear y then 366 else 365)"
proof (cases "m = 12")
  case True
  then show ?thesis using daysBeforeMonth_December [of y] by (simp add: daysInMonth_def)
next
  case False
  then have "daysBeforeMonth y m + daysInMonth y m = daysBeforeMonth y (m + 1)"
    using assms by (simp add: daysBeforeMonth_step)
  also have "\<dots> \<le> daysBeforeMonth y 12"
    using assms False by (intro daysBeforeMonth_mono) simp_all
  also have "\<dots> \<le> (if leapYear y then 366 else 365)"
    using daysBeforeMonth_December [of y] by simp
  finally show ?thesis .
qed

lemma dayNumber_in_year:
  assumes "valid_datum d"
  shows "daysBeforeYear (year d) < dayNumber d" and "dayNumber d \<le> daysBeforeYear (year d + 1)"
proof -
  have v: "1 \<le> month d" "month d \<le> 12" "1 \<le> day d" "day d \<le> daysInMonth (year d) (month d)"
    using assms by (auto simp: valid_datum_def)
  show "daysBeforeYear (year d) < dayNumber d"
    using v daysBeforeMonth_nonneg [of "month d" "year d"] by (simp add: dayNumber_def)
  show "dayNumber d \<le> daysBeforeYear (year d + 1)"
    using v daysBeforeMonth_end [of "month d" "year d"]
    by (simp add: dayNumber_def daysBeforeYear_step split: if_splits)
qed

lemma dayNumber_mono:
  assumes "valid_datum a" "valid_datum b" "isBefore a b"
  shows "dayNumber a < dayNumber b"
proof -
  have va: "1 \<le> month a" "month a \<le> 12" "1 \<le> day a" "day a \<le> daysInMonth (year a) (month a)"
    using assms(1) by (auto simp: valid_datum_def)
  have vb: "1 \<le> month b" "month b \<le> 12" "1 \<le> day b" "day b \<le> daysInMonth (year b) (month b)"
    using assms(2) by (auto simp: valid_datum_def)
  consider (y) "year a < year b"
    | (m) "year a = year b" "month a < month b"
    | (d) "year a = year b" "month a = month b" "day a < day b"
    using assms(3) by (auto simp: isBefore_def)
  then show ?thesis
  proof cases
    case y
    have "dayNumber a \<le> daysBeforeYear (year a + 1)"
      using dayNumber_in_year(2) [OF assms(1)] .
    also have "\<dots> \<le> daysBeforeYear (year b)"
      using y by (intro daysBeforeYear_mono) simp
    also have "\<dots> < dayNumber b"
      using dayNumber_in_year(1) [OF assms(2)] .
    finally show ?thesis .
  next
    case m
    have "daysBeforeMonth (year a) (month a) + daysInMonth (year a) (month a)
            = daysBeforeMonth (year a) (month a + 1)"
      using va vb m by (simp add: daysBeforeMonth_step)
    also have "\<dots> \<le> daysBeforeMonth (year a) (month b)"
      using va vb m by (intro daysBeforeMonth_mono) simp_all
    finally show ?thesis
      using va vb m by (simp add: dayNumber_def)
  next
    case d
    then show ?thesis by (simp add: dayNumber_def)
  qed
qed

lemma isBefore_total: "isBefore a b \<or> isBefore b a \<or> a = b" for a b :: datum
  by (cases a; cases b) (auto simp: isBefore_def)

lemma dayNumber_inj:
  assumes "valid_datum a" "valid_datum b" "dayNumber a = dayNumber b"
  shows "a = b"
  using isBefore_total [of a b] dayNumber_mono [OF assms(1,2)] dayNumber_mono [OF assms(2,1)] assms(3)
  by auto

lemma dayNumber_first: "dayNumber \<lparr>year = 0, month = 1, day = 1\<rparr> = 1"
  by (simp add: dayNumber_def daysBeforeYear_def leapsBefore_def daysBeforeMonth_def)

lemma dayNumber_last: "dayNumber \<lparr>year = 9999, month = 12, day = 31\<rparr> = 3652425"
  by (simp add: dayNumber_def daysBeforeYear_def leapsBefore_def daysBeforeMonth_def leapYear_def)

lemma daysBeforeYear_10000: "daysBeforeYear 10000 = 3652425"
  by (simp add: daysBeforeYear_def leapsBefore_def)

lemma daysBeforeYear_0: "daysBeforeYear 0 = 0"
  by (simp add: daysBeforeYear_def leapsBefore_def)

lemma dayNumber_range:
  assumes "valid_datum d"
  shows "1 \<le> dayNumber d" and "dayNumber d \<le> 3652425"
proof -
  have y: "0 \<le> year d" "year d + 1 \<le> 10000" using assms by (auto simp: valid_datum_def)
  have "daysBeforeYear 0 \<le> daysBeforeYear (year d)" using y by (intro daysBeforeYear_mono)
  then show "1 \<le> dayNumber d"
    using dayNumber_in_year(1) [OF assms] by (simp add: daysBeforeYear_0)
  have "daysBeforeYear (year d + 1) \<le> daysBeforeYear 10000" using y by (intro daysBeforeYear_mono)
  then show "dayNumber d \<le> 3652425"
    using dayNumber_in_year(2) [OF assms] by (simp add: daysBeforeYear_10000)
qed

subsection \<open>What the loops compute\<close>

lemma addDays_loop_total:
  "valid_datum c \<Longrightarrow> 0 \<le> k \<Longrightarrow>
   (if dayNumber c + k \<le> 3652425 then \<exists>r. addDays_loop c k = Inr r
    else addDays_loop c k = Inl (TypeError YearNotInRange))"
proof (induction c k rule: addDays_loop.induct)
  case (1 current daysToAdd)
  define s where "s = daysInMonth (year current) (month current) - day current + 1"
  have v: "0 \<le> year current" "year current \<le> 9999" "1 \<le> month current" "month current \<le> 12"
    "1 \<le> day current" "day current \<le> daysInMonth (year current) (month current)"
    using "1.prems"(1) by (auto simp: valid_datum_def)
  have du: "daysUntilFirstDayOfNextMonth current = Inr s"
    using v by (simp add: daysUntil_eq s_def)
  show ?case
  proof (cases "daysToAdd < s")
    case True
    define r where "r = \<lparr>year = year current, month = month current, day = day current + daysToAdd\<rparr>"
    have le31: "day current + daysToAdd \<le> 31"
      using True daysInMonth_bounds [of "year current" "month current"] by (simp add: s_def)
    have res: "addDays_loop current daysToAdd = Inr r"
      using True v "1.prems"(2) le31
      by (subst addDays_loop.simps) (simp add: du Datum_new_Integral s_def r_def)
    have "valid_datum r"
      using v True "1.prems"(2) by (simp add: valid_datum_def r_def s_def)
    then have "dayNumber r \<le> 3652425" by (rule dayNumber_range(2))
    moreover have "dayNumber r = dayNumber current + daysToAdd"
      by (simp add: r_def dayNumber_def)
    ultimately show ?thesis using res by simp
  next
    case False
    have unf: "addDays_loop current daysToAdd =
                 (case firstDayOfNextMonth current of Inl e \<Rightarrow> Inl e
                  | Inr next \<Rightarrow> addDays_loop next (daysToAdd - s))"
      using False by (subst addDays_loop.simps) (simp add: du)
    show ?thesis
    proof (cases "firstDayOfNextMonth current")
      case (Inl e)
      then have ym: "year current = 9999" "month current = 12" and e: "e = TypeError YearNotInRange"
        using v by (auto simp: firstDayOfNextMonth_eq split: if_splits)
      have "dayNumber current + s = 3652426"
        using ym by (simp add: dayNumber_def s_def daysBeforeYear_def leapsBefore_def
            daysBeforeMonth_def daysInMonth_def leapYear_def)
      then show ?thesis using False unf Inl e by simp
    next
      case (Inr n)
      have vn: "valid_datum n" and dn: "dayNumber n = dayNumber current + s"
        using firstDayOfNextMonth_dayNumber [OF "1.prems"(1) Inr] by (simp_all add: s_def)
      have "if dayNumber n + (daysToAdd - s) \<le> 3652425
            then \<exists>r. addDays_loop n (daysToAdd - s) = Inr r
            else addDays_loop n (daysToAdd - s) = Inl (TypeError YearNotInRange)"
        using "1.IH" [OF du False Inr vn] False by simp
      then show ?thesis using unf Inr dn by simp
    qed
  qed
qed

lemma subtractDays_loop_sound:
  "valid_datum c \<Longrightarrow> 0 \<le> k \<Longrightarrow> subtractDays_loop c k = Inr r \<Longrightarrow>
   valid_datum r \<and> dayNumber r = dayNumber c - k"
proof (induction c k rule: subtractDays_loop.induct)
  case (1 current daysToSubtract)
  have v: "0 \<le> year current" "year current \<le> 9999" "1 \<le> month current" "month current \<le> 12"
    "1 \<le> day current" "day current \<le> daysInMonth (year current) (month current)"
    using "1.prems"(1) by (auto simp: valid_datum_def)
  show ?case
  proof (cases "daysToSubtract < day current")
    case True
    have le31: "day current - daysToSubtract \<le> 31"
      using "1.prems"(2) v daysInMonth_bounds [of "year current" "month current"] by simp
    have "subtractDays_loop current daysToSubtract =
            Inr \<lparr>year = year current, month = month current, day = day current - daysToSubtract\<rparr>"
      using True v "1.prems"(2) le31
      by (subst subtractDays_loop.simps) (simp add: Datum_new_Integral)
    with "1.prems"(3)
    have "r = \<lparr>year = year current, month = month current, day = day current - daysToSubtract\<rparr>"
      by simp
    then show ?thesis
      using v True "1.prems"(2) by (simp add: valid_datum_def dayNumber_def)
  next
    case False
    have unf: "subtractDays_loop current daysToSubtract =
                 (case lastDayOfPreviousMonth current of Inl e \<Rightarrow> Inl e
                  | Inr previous \<Rightarrow> subtractDays_loop previous (daysToSubtract - day current))"
      using False by (subst subtractDays_loop.simps) simp
    with "1.prems"(3) obtain p where p: "lastDayOfPreviousMonth current = Inr p"
      and rec: "subtractDays_loop p (daysToSubtract - day current) = Inr r"
      by (auto split: sum.splits)
    have vp: "valid_datum p" and dp: "dayNumber p = dayNumber current - day current"
      using lastDayOfPreviousMonth_dayNumber [OF "1.prems"(1) p] by simp_all
    have "valid_datum r \<and> dayNumber r = dayNumber p - (daysToSubtract - day current)"
      using "1.IH" [OF refl False p vp _ rec] False by simp
    then show ?thesis using dp by simp
  qed
qed

lemma subtractDays_loop_total:
  "valid_datum c \<Longrightarrow> 0 \<le> k \<Longrightarrow>
   (if k < dayNumber c then \<exists>r. subtractDays_loop c k = Inr r
    else subtractDays_loop c k = Inl (TypeError YearNotInRange))"
proof (induction c k rule: subtractDays_loop.induct)
  case (1 current daysToSubtract)
  have v: "0 \<le> year current" "year current \<le> 9999" "1 \<le> month current" "month current \<le> 12"
    "1 \<le> day current" "day current \<le> daysInMonth (year current) (month current)"
    using "1.prems"(1) by (auto simp: valid_datum_def)
  have dn_day: "day current < dayNumber current + 1"
    using dayNumber_in_year(1) [OF "1.prems"(1)] daysBeforeYear_mono [of 0 "year current"] v
      daysBeforeMonth_nonneg [of "month current" "year current"]
    by (simp add: dayNumber_def daysBeforeYear_0)
  show ?case
  proof (cases "daysToSubtract < day current")
    case True
    have le31: "day current - daysToSubtract \<le> 31"
      using "1.prems"(2) v daysInMonth_bounds [of "year current" "month current"] by simp
    have "subtractDays_loop current daysToSubtract =
            Inr \<lparr>year = year current, month = month current, day = day current - daysToSubtract\<rparr>"
      using True v "1.prems"(2) le31
      by (subst subtractDays_loop.simps) (simp add: Datum_new_Integral)
    then show ?thesis using True dn_day by simp
  next
    case False
    have unf: "subtractDays_loop current daysToSubtract =
                 (case lastDayOfPreviousMonth current of Inl e \<Rightarrow> Inl e
                  | Inr previous \<Rightarrow> subtractDays_loop previous (daysToSubtract - day current))"
      using False by (subst subtractDays_loop.simps) simp
    show ?thesis
    proof (cases "lastDayOfPreviousMonth current")
      case (Inl e)
      then have ym: "year current = 0" "month current = 1" and e: "e = TypeError YearNotInRange"
        using v by (auto simp: lastDayOfPreviousMonth_eq split: if_splits)
      have "dayNumber current = day current"
        using ym by (simp add: dayNumber_def daysBeforeYear_0 daysBeforeMonth_def)
      then show ?thesis using False unf Inl e by simp
    next
      case (Inr p)
      have vp: "valid_datum p" and dp: "dayNumber p = dayNumber current - day current"
        using lastDayOfPreviousMonth_dayNumber [OF "1.prems"(1) Inr] by simp_all
      have "if daysToSubtract - day current < dayNumber p
            then \<exists>r. subtractDays_loop p (daysToSubtract - day current) = Inr r
            else subtractDays_loop p (daysToSubtract - day current) = Inl (TypeError YearNotInRange)"
        using "1.IH" [OF refl False Inr vp] False by simp
      then show ?thesis using unf Inr dp by simp
    qed
  qed
qed

lemma deltaDays_loop_eq:
  "valid_datum c \<Longrightarrow> valid_datum u \<Longrightarrow> \<not> isAfter c u \<Longrightarrow>
   deltaDays_loop c u acc = Inr (acc + (dayNumber u - dayNumber c))"
proof (induction c u acc rule: deltaDays_loop.induct)
  case (1 current until delta)
  define s where "s = daysInMonth (year current) (month current) - day current + 1"
  have v: "0 \<le> year current" "year current \<le> 9999" "1 \<le> month current" "month current \<le> 12"
    "1 \<le> day current" "day current \<le> daysInMonth (year current) (month current)"
    using "1.prems"(1) by (auto simp: valid_datum_def)
  have vu: "0 \<le> year until" "year until \<le> 9999" "1 \<le> month until" "month until \<le> 12"
    "1 \<le> day until" "day until \<le> daysInMonth (year until) (month until)"
    using "1.prems"(2) by (auto simp: valid_datum_def)
  have du: "daysUntilFirstDayOfNextMonth current = Inr s"
    using v by (simp add: daysUntil_eq s_def)
  show ?case
  proof (cases "year current = year until \<and> month current = month until")
    case True
    then have "day current \<le> day until"
      using "1.prems"(3) by (auto simp: isAfter_def)
    then show ?thesis
      using True by (subst deltaDays_loop.simps) (simp add: dayNumber_def)
  next
    case False
    then have lt: "year current < year until \<or> (year current = year until \<and> month current < month until)"
      using "1.prems"(3) by (auto simp: isAfter_def)
    have "\<exists>n. firstDayOfNextMonth current = Inr n"
    proof (cases "month current = 12")
      case True
      then have "year current + 1 \<le> 9999" using lt vu by auto
      then show ?thesis using True v by (simp add: firstDayOfNextMonth_eq)
    next
      case False
      then show ?thesis using v by (simp add: firstDayOfNextMonth_eq)
    qed
    then obtain n where n: "firstDayOfNextMonth current = Inr n" ..
    have vn: "valid_datum n" and dn: "dayNumber n = dayNumber current + s"
      using firstDayOfNextMonth_dayNumber [OF "1.prems"(1) n] by (simp_all add: s_def)
    have "\<not> isAfter n until"
      using n lt v vu by (auto simp: firstDayOfNextMonth_eq isAfter_def split: if_splits)
    then have "deltaDays_loop n until (delta + s) = Inr (delta + s + (dayNumber until - dayNumber n))"
      using "1.IH" [OF False du n vn "1.prems"(2)] by simp
    moreover have "deltaDays_loop current until delta = deltaDays_loop n until (delta + s)"
      using False by (subst deltaDays_loop.simps) (auto simp: du n)
    ultimately show ?thesis using dn by simp
  qed
qed

lemma addDays_loop_valid: "addDays_loop c k = Inr r \<Longrightarrow> valid_datum r"
proof (induction c k rule: addDays_loop.induct)
  case (1 current daysToAdd)
  from "1.prems" show ?case
    by (subst (asm) addDays_loop.simps)
       (auto split: sum.splits if_splits dest: Datum_new_valid intro: "1.IH")
qed

lemma subtractDays_loop_valid: "subtractDays_loop c k = Inr r \<Longrightarrow> valid_datum r"
proof (induction c k rule: subtractDays_loop.induct)
  case (1 current daysToSubtract)
  from "1.prems" show ?case
    by (subst (asm) subtractDays_loop.simps)
       (auto simp: Let_def split: sum.splits if_splits dest: Datum_new_valid intro: "1.IH")
qed

lemma firstDayOfNextMonth_valid: "firstDayOfNextMonth c = Inr r \<Longrightarrow> valid_datum r"
  by (auto simp: firstDayOfNextMonth_def split: if_splits dest: Datum_new_valid)

lemma lastDayOfPreviousMonth_valid: "lastDayOfPreviousMonth c = Inr r \<Longrightarrow> valid_datum r"
  by (auto simp: lastDayOfPreviousMonth_def split: if_splits sum.splits dest: Datum_new_valid)

lemma isAfter_iff: "isAfter a b = isBefore b a"
  by (auto simp: isAfter_def isBefore_def)

lemma isEqual_iff: "isEqual a b = (a = b)" for a b :: datum
  by (cases a; cases b) (auto simp: isEqual_def)

lemma isBefore_asym: "isBefore a b \<Longrightarrow> \<not> isBefore b a"
  by (auto simp: isBefore_def)

lemma isBefore_irrefl: "\<not> isBefore a a"
  by (simp add: isBefore_def)

lemma deltaDays_eq:
  assumes "valid_datum a" "valid_datum b"
  shows "deltaDays a b = Inr \<bar>dayNumber b - dayNumber a\<bar>"
proof -
  consider (eq) "a = b" | (lt) "isBefore a b" | (gt) "isBefore b a"
    using isBefore_total [of a b] by blast
  then show ?thesis
  proof cases
    case eq
    then show ?thesis by (simp add: deltaDays_def isEqual_iff)
  next
    case lt
    then have ne: "a \<noteq> b" and nb: "\<not> isBefore b a"
      using isBefore_irrefl isBefore_asym by blast+
    have "deltaDays a b = deltaDays_loop a b 0"
      using lt ne nb by (simp add: deltaDays_def isEqual_iff isAfter_iff)
    also have "\<dots> = Inr (0 + (dayNumber b - dayNumber a))"
      using assms nb by (intro deltaDays_loop_eq) (simp_all add: isAfter_iff)
    finally show ?thesis
      using dayNumber_mono [OF assms lt] by simp
  next
    case gt
    then have ne: "a \<noteq> b" and nb: "\<not> isBefore a b"
      using isBefore_irrefl isBefore_asym by blast+
    have "deltaDays a b = deltaDays_loop b a 0"
      using gt ne nb by (simp add: deltaDays_def isEqual_iff isAfter_iff)
    also have "\<dots> = Inr (0 + (dayNumber a - dayNumber b))"
      using assms nb by (intro deltaDays_loop_eq) (simp_all add: isAfter_iff)
    finally show ?thesis
      using dayNumber_mono [OF assms(2,1) gt] by simp
  qed
qed

subsection \<open>Weekday and extremal elements\<close>

lemma referenceMonday_new:
  "Datum_new (Integral 2019) (Integral 8) (Integral 26) = Inr referenceMonday"
  by (simp add: Datum_new_Integral daysInMonth_def referenceMonday_def)

lemma referenceMonday_valid: "valid_datum referenceMonday"
  using referenceMonday_new by (rule Datum_new_valid)

lemma mod7_cases:
  fixes k :: int
  shows "k mod 7 = 0 \<or> k mod 7 = 1 \<or> k mod 7 = 2 \<or> k mod 7 = 3 \<or> k mod 7 = 4 \<or> k mod 7 = 5 \<or> k mod 7 = 6"
proof -
  have "0 \<le> k mod 7" "k mod 7 < 7" by simp_all
  then show ?thesis by arith
qed

lemma weekday_eq:
  assumes "valid_datum d"
  defines "delta \<equiv> \<bar>dayNumber referenceMonday - dayNumber d\<bar>"
  shows "deltaDays d referenceMonday = Inr delta"
    and "\<exists>w. weekday d = Inr w \<and>
           weekdayOrdinal w = (if isBefore d referenceMonday then (7 - delta mod 7) mod 7 else delta mod 7)"
proof -
  show dd: "deltaDays d referenceMonday = Inr delta"
    unfolding delta_def by (rule deltaDays_eq [OF assms(1) referenceMonday_valid])
  have nonneg: "0 \<le> delta" by (simp add: delta_def)
  have rem: "jsRem delta 7 = delta mod 7"
    using nonneg by (simp add: jsRem_nonneg)
  show "\<exists>w. weekday d = Inr w \<and>
           weekdayOrdinal w = (if isBefore d referenceMonday then (7 - delta mod 7) mod 7 else delta mod 7)"
    using mod7_cases [of delta]
    by (auto simp add: weekday_def referenceMonday_new dd rem Let_def)
qed

lemma weekdayOrdinal_inj: "weekdayOrdinal w = weekdayOrdinal w' \<Longrightarrow> w = w'"
  by (cases w; cases w') simp_all

lemma dayNumber_referenceMonday: "dayNumber referenceMonday = 737663"
  by (simp add: referenceMonday_def dayNumber_def daysBeforeYear_def leapsBefore_def
      daysBeforeMonth_def leapYear_def)

lemma weekday_dayNumber:
  assumes "valid_datum d"
  shows "\<exists>w. weekday d = Inr w \<and>
           weekdayOrdinal w = (dayNumber d - dayNumber referenceMonday) mod 7"
proof -
  define delta where "delta = \<bar>dayNumber referenceMonday - dayNumber d\<bar>"
  obtain w where w: "weekday d = Inr w"
    and ord: "weekdayOrdinal w =
                (if isBefore d referenceMonday then (7 - delta mod 7) mod 7 else delta mod 7)"
    using weekday_eq(2) [OF assms] unfolding delta_def by blast
  have "weekdayOrdinal w = (dayNumber d - dayNumber referenceMonday) mod 7"
  proof (cases "isBefore d referenceMonday")
    case True
    then have "dayNumber d < dayNumber referenceMonday"
      by (rule dayNumber_mono [OF assms referenceMonday_valid])
    then have "delta = - (dayNumber d - dayNumber referenceMonday)" by (simp add: delta_def)
    moreover have "(7 - (- k) mod 7) mod 7 = k mod 7" for k :: int
      by presburger
    ultimately have "(7 - delta mod 7) mod 7 = (dayNumber d - dayNumber referenceMonday) mod 7"
      by (simp only:)
    then show ?thesis using ord True by (simp only: if_True)
  next
    case False
    then have "\<not> dayNumber d < dayNumber referenceMonday"
      using isBefore_total [of d referenceMonday]
        dayNumber_mono [OF referenceMonday_valid assms] by auto
    then have "delta = dayNumber d - dayNumber referenceMonday" by (simp add: delta_def)
    then show ?thesis using ord False by simp
  qed
  with w show ?thesis by blast
qed

lemma weekday_2019_08_26: "weekday \<lparr>year = 2019, month = 8, day = 26\<rparr> = Inr Monday"
proof -
  have v: "valid_datum \<lparr>year = 2019, month = 8, day = 26\<rparr>"
    by (simp add: valid_datum_def daysInMonth_def)
  have n: "dayNumber \<lparr>year = 2019, month = 8, day = 26\<rparr> = 737663"
    by (simp add: dayNumber_def daysBeforeYear_def leapsBefore_def daysBeforeMonth_def leapYear_def)
  obtain w where "weekday \<lparr>year = 2019, month = 8, day = 26\<rparr> = Inr w" "weekdayOrdinal w = 0"
    using weekday_dayNumber [OF v] by (auto simp: n dayNumber_referenceMonday)
  then show ?thesis by (cases w) simp_all
qed

lemma weekday_2019_08_19: "weekday \<lparr>year = 2019, month = 8, day = 19\<rparr> = Inr Monday"
proof -
  have v: "valid_datum \<lparr>year = 2019, month = 8, day = 19\<rparr>"
    by (simp add: valid_datum_def daysInMonth_def)
  have n: "dayNumber \<lparr>year = 2019, month = 8, day = 19\<rparr> = 737656"
    by (simp add: dayNumber_def daysBeforeYear_def leapsBefore_def daysBeforeMonth_def leapYear_def)
  obtain w where "weekday \<lparr>year = 2019, month = 8, day = 19\<rparr> = Inr w" "weekdayOrdinal w = 0"
    using weekday_dayNumber [OF v] by (auto simp: n dayNumber_referenceMonday)
  then show ?thesis by (cases w) simp_all
qed

lemma weekday_1988_09_11: "weekday \<lparr>year = 1988, month = 9, day = 11\<rparr> = Inr Sunday"
proof -
  have v: "valid_datum \<lparr>year = 1988, month = 9, day = 11\<rparr>"
    by (simp add: valid_datum_def daysInMonth_def)
  have n: "dayNumber \<lparr>year = 1988, month = 9, day = 11\<rparr> = 726357"
    by (simp add: dayNumber_def daysBeforeYear_def leapsBefore_def daysBeforeMonth_def leapYear_def)
  obtain w where "weekday \<lparr>year = 1988, month = 9, day = 11\<rparr> = Inr w" "weekdayOrdinal w = 6"
    using weekday_dayNumber [OF v] by (auto simp: n dayNumber_referenceMonday)
  then show ?thesis by (cases w) simp_all
qed

lemma isBefore_trans: "isBefore a b \<Longrightarrow> isBefore b c \<Longrightarrow> isBefore a c"
  by (auto simp: isBefore_def)

lemma isBefore_not_trans:
  fixes a b c :: datum
  assumes "\<not> isBefore a b" "\<not> isBefore b c"
  shows "\<not> isBefore a c"
proof
  assume ac: "isBefore a c"
  from assms(1) isBefore_total [of a b] have "isBefore b a \<or> a = b" by blast
  then show False
  proof
    assume "isBefore b a"
    then have "isBefore b c" using ac by (rule isBefore_trans)
    with assms(2) show False ..
  next
    assume "a = b"
    with ac assms(2) show False by simp
  qed
qed

lemma min_loop_None: "min_loop acc ds = None \<longleftrightarrow> acc = None \<and> ds = []"
  by (induction ds arbitrary: acc) (auto split: option.splits)

lemma min_loop_Some:
  "min_loop acc ds = Some m \<Longrightarrow>
   (m \<in> set ds \<or> acc = Some m) \<and> (\<forall>x\<in>set ds. \<not> isBefore x m) \<and>
   (\<forall>a. acc = Some a \<longrightarrow> \<not> isBefore a m)"
proof (induction ds arbitrary: acc)
  case Nil
  then show ?case by (simp add: isBefore_def)
next
  case (Cons x xs)
  show ?case
  proof (cases acc)
    case None
    then have "min_loop (Some x) xs = Some m" using Cons.prems by simp
    from Cons.IH [OF this] None show ?thesis by auto
  next
    case (Some a)
    show ?thesis
    proof (cases "isBefore x a")
      case True
      then have "min_loop (Some x) xs = Some m" using Cons.prems Some by simp
      from Cons.IH [OF this] have ih: "m \<in> set xs \<or> x = m" "\<forall>y\<in>set xs. \<not> isBefore y m"
        "\<not> isBefore x m" by auto
      have "\<not> isBefore a m"
        using True ih(3) isBefore_trans by blast
      with ih Some show ?thesis by auto
    next
      case False
      then have "min_loop (Some a) xs = Some m" using Cons.prems Some by simp
      from Cons.IH [OF this] have ih: "m \<in> set xs \<or> a = m" "\<forall>y\<in>set xs. \<not> isBefore y m"
        "\<not> isBefore a m" by auto
      have "\<not> isBefore x m"
        using False ih(3) by (rule isBefore_not_trans)
      with ih Some show ?thesis by auto
    qed
  qed
qed

lemma max_loop_None: "max_loop acc ds = None \<longleftrightarrow> acc = None \<and> ds = []"
  by (induction ds arbitrary: acc) (auto split: option.splits)

lemma max_loop_Some:
  "max_loop acc ds = Some m \<Longrightarrow>
   (m \<in> set ds \<or> acc = Some m) \<and> (\<forall>x\<in>set ds. \<not> isAfter x m) \<and>
   (\<forall>a. acc = Some a \<longrightarrow> \<not> isAfter a m)"
proof (induction ds arbitrary: acc)
  case Nil
  then show ?case by (simp add: isAfter_def)
next
  case (Cons x xs)
  show ?case
  proof (cases acc)
    case None
    then have "max_loop (Some x) xs = Some m" using Cons.prems by simp
    from Cons.IH [OF this] None show ?thesis by auto
  next
    case (Some a)
    show ?thesis
    proof (cases "isAfter x a")
      case True
      then have "max_loop (Some x) xs = Some m" using Cons.prems Some by simp
      from Cons.IH [OF this] have ih: "m \<in> set xs \<or> x = m" "\<forall>y\<in>set xs. \<not> isAfter y m"
        "\<not> isAfter x m" by auto
      have "\<not> isAfter a m"
        using True ih(3) isBefore_trans unfolding isAfter_iff by blast
      with ih Some show ?thesis by auto
    next
      case False
      then have "max_loop (Some a) xs = Some m" using Cons.prems Some by simp
      from Cons.IH [OF this] have ih: "m \<in> set xs \<or> a = m" "\<forall>y\<in>set xs. \<not> isAfter y m"
        "\<not> isAfter a m" by auto
      have "\<not> isAfter x m"
        using ih(3) False unfolding isAfter_iff by (rule isBefore_not_trans)
      with ih Some show ?thesis by auto
    qed
  qed
qed

subsection \<open>Digits, padding and parsing\<close>

lemma digit_cases:
  fixes n :: nat
  assumes "n < 10"
  shows "n \<in> {0, 1, 2, 3, 4, 5, 6, 7, 8, 9}"
  using assms by simp arith

lemma of_char_digitChar: "n < 10 \<Longrightarrow> of_char (digitChar n) = 48 + n"
  using digit_cases [of n] by (auto simp: digitChar_def)

lemma digitValue_digitChar: "n < 10 \<Longrightarrow> digitValue (digitChar n) = n"
  by (simp add: digitValue_def of_char_digitChar)

lemma isDigit_digitChar: "n < 10 \<Longrightarrow> isDigit (digitChar n)"
  using digit_cases [of n] by (auto simp: digitChar_def isDigit_def)

lemma isDigit_value: "isDigit c \<Longrightarrow> digitValue c < 10 \<and> digitChar (digitValue c) = c"
  by (auto simp: isDigit_def digitValue_def digitChar_def)

lemma isDigit_not_space: "isDigit c \<Longrightarrow> \<not> isSpace c \<and> c \<noteq> CHR ''-'' \<and> c \<noteq> CHR ''+''"
  by (auto simp: isDigit_def isSpace_def)

lemma padWithLeadingZeros_replicate:
  "padWithLeadingZeros s k = replicate (k - length s) (CHR ''0'') @ s"
proof (induction s k rule: padWithLeadingZeros.induct)
  case (1 str targetLength)
  show ?case
  proof (cases "length str < targetLength")
    case True
    then have "targetLength - length str = Suc (targetLength - length (CHR ''0'' # str))"
      by simp
    then show ?thesis
      using True "1.IH" [OF True]
      by (subst padWithLeadingZeros.simps) (simp add: replicate_app_Cons_same)
  next
    case False
    then show ?thesis by (subst padWithLeadingZeros.simps) simp
  qed
qed

lemma fixedDigits_0: "fixedDigits k 0 = replicate k (CHR ''0'')"
  by (induction k) (simp_all add: digitChar_def replicate_append_same)

lemma length_fixedDigits: "length (fixedDigits k n) = k"
  by (induction k arbitrary: n) simp_all

lemma natDigits_fixedDigits:
  "0 < k \<Longrightarrow> n < 10 ^ k \<Longrightarrow>
   replicate (k - length (natDigits n)) (CHR ''0'') @ natDigits n = fixedDigits k n"
proof (induction k arbitrary: n)
  case 0
  then show ?case by simp
next
  case (Suc k)
  show ?case
  proof (cases "n < 10")
    case True
    then show ?thesis
      by (subst (1 2) natDigits.simps) (simp add: fixedDigits_0)
  next
    case False
    then have k: "0 < k" using Suc.prems by (cases k) simp_all
    have lt: "n div 10 < 10 ^ k" using Suc.prems by (simp add: less_mult_imp_div_less mult.commute)
    have nd: "natDigits n = natDigits (n div 10) @ [digitChar (n mod 10)]"
      using False by (subst natDigits.simps) simp
    show ?thesis
      using Suc.IH [OF k lt] by (simp add: nd)
  qed
qed

lemma pad_natDigits:
  "0 < k \<Longrightarrow> n < 10 ^ k \<Longrightarrow> padWithLeadingZeros (natDigits n) k = fixedDigits k n"
  by (simp add: padWithLeadingZeros_replicate natDigits_fixedDigits)

lemma digitsValue_snoc: "digitsValue (ds @ [c]) = 10 * digitsValue ds + digitValue c"
  by (simp add: digitsValue_def)

lemma digitsValue_Nil: "digitsValue [] = 0"
  by (simp add: digitsValue_def)

lemma digitsValue_fixedDigits: "n < 10 ^ k \<Longrightarrow> digitsValue (fixedDigits k n) = n"
proof (induction k arbitrary: n)
  case 0
  then show ?case by (simp add: digitsValue_Nil)
next
  case (Suc k)
  have lt: "n div 10 < 10 ^ k" using Suc.prems by (simp add: less_mult_imp_div_less mult.commute)
  show ?case
    using Suc.IH [OF lt] by (simp add: digitsValue_snoc digitValue_digitChar)
qed

lemma isDigit_fixedDigits: "list_all isDigit (fixedDigits k n)"
  by (induction k arbitrary: n) (simp_all add: isDigit_digitChar)

lemma fixedDigits_digitsValue:
  "list_all isDigit ds \<Longrightarrow>
   fixedDigits (length ds) (digitsValue ds) = ds \<and> digitsValue ds < 10 ^ length ds"
proof (induction ds rule: rev_induct)
  case Nil
  then show ?case by (simp add: digitsValue_Nil)
next
  case (snoc c ds)
  then have ih: "fixedDigits (length ds) (digitsValue ds) = ds" "digitsValue ds < 10 ^ length ds"
    and c: "digitValue c < 10" "digitChar (digitValue c) = c"
    using isDigit_value [of c] by simp_all
  have "(10 * digitsValue ds + digitValue c) div 10 = digitsValue ds"
    "(10 * digitsValue ds + digitValue c) mod 10 = digitValue c"
    using c(1) by simp_all
  moreover have "10 * digitsValue ds + digitValue c < 10 * 10 ^ length ds"
    using ih(2) c(1) by arith
  ultimately show ?case
    using ih c by (simp add: digitsValue_snoc)
qed

lemma parseInt_digits:
  assumes "list_all isDigit ds" "ds \<noteq> []"
  shows "parseInt ds = Integral (int (digitsValue ds))"
proof -
  obtain c cs where ds: "ds = c # cs" using assms(2) by (cases ds) auto
  then have c: "isDigit c" using assms(1) by simp
  have tw: "takeWhile isDigit ds = ds"
    using assms(1) by (simp add: takeWhile_eq_all_conv list_all_iff)
  show ?thesis
    using isDigit_not_space [OF c] tw ds
    by (simp add: parseInt_def Let_def)
qed

lemma toString_fixedDigits:
  assumes "0 \<le> year d" "year d < 10000" "0 \<le> month d" "month d < 100" "0 \<le> day d" "day d < 100"
  shows "toString d =
           fixedDigits 4 (nat (year d)) @ ''-'' @ fixedDigits 2 (nat (month d)) @ ''-'' @
           fixedDigits 2 (nat (day d))"
proof -
  have "padWithLeadingZeros (numberToString (year d)) 4 = fixedDigits 4 (nat (year d))"
    using assms by (simp add: numberToString_def pad_natDigits)
  moreover have "padWithLeadingZeros (numberToString (month d)) 2 = fixedDigits 2 (nat (month d))"
    using assms by (simp add: numberToString_def pad_natDigits)
  moreover have "padWithLeadingZeros (numberToString (day d)) 2 = fixedDigits 2 (nat (day d))"
    using assms by (simp add: numberToString_def pad_natDigits)
  ultimately show ?thesis by (simp add: toString_def)
qed

lemma valid_datum_ranges:
  assumes "valid_datum d"
  shows "0 \<le> year d" "year d < 10000" "0 \<le> month d" "month d < 100" "0 \<le> day d" "day d < 100"
  using assms daysInMonth_bounds [of "year d" "month d"] by (auto simp: valid_datum_def)

lemma REGEX_match_canonical:
  assumes "length g1 = 4" "length g2 = 2" "length g3 = 2"
    "list_all isDigit g1" "list_all isDigit g2" "list_all isDigit g3"
  shows "REGEX_match (g1 @ ''-'' @ g2 @ ''-'' @ g3) = Some (g1, g2, g3)"
  using assms by (simp add: REGEX_match_def Let_def)

lemma REGEX_match_Some:
  assumes "REGEX_match s = Some (g1, g2, g3)"
  shows "s = g1 @ ''-'' @ g2 @ ''-'' @ g3" "length g1 = 4" "length g2 = 2" "length g3 = 2"
    "list_all isDigit g1" "list_all isDigit g2" "list_all isDigit g3"
proof -
  define r1 where "r1 = drop 4 s"
  define r2 where "r2 = drop 3 r1"
  from assms have g: "g1 = take 4 s" "g2 = take 2 (drop 1 r1)" "g3 = take 2 (drop 1 r2)"
    and c: "length g1 = 4" "list_all isDigit g1" "take 1 r1 = ''-''"
      "length g2 = 2" "list_all isDigit g2" "take 1 r2 = ''-''"
      "length g3 = 2" "list_all isDigit g3" "drop 3 r2 = []"
    by (auto simp: REGEX_match_def Let_def r1_def r2_def split: if_splits)
  show "length g1 = 4" "length g2 = 2" "length g3 = 2"
    "list_all isDigit g1" "list_all isDigit g2" "list_all isDigit g3"
    using c by simp_all
  have s: "s = g1 @ r1" by (simp add: g r1_def)
  have "take 1 r1 @ drop 1 r1 = r1" by (rule append_take_drop_id)
  then have a1: "r1 = ''-'' @ drop 1 r1" using c(3) by metis
  have "take 2 (drop 1 r1) @ drop 2 (drop 1 r1) = drop 1 r1" by (rule append_take_drop_id)
  moreover have "drop 2 (drop 1 r1) = r2" by (simp add: r2_def)
  ultimately have a2: "drop 1 r1 = g2 @ r2" using g(2) by metis
  have r1: "r1 = ''-'' @ g2 @ r2" using a1 a2 by metis
  have "take 1 r2 @ drop 1 r2 = r2" by (rule append_take_drop_id)
  then have b1: "r2 = ''-'' @ drop 1 r2" using c(6) by metis
  have "take 2 (drop 1 r2) @ drop 2 (drop 1 r2) = drop 1 r2" by (rule append_take_drop_id)
  moreover have "drop 2 (drop 1 r2) = []" using c(9) by simp
  ultimately have b2: "drop 1 r2 = g3" using g(3) by (metis append_Nil2)
  have r2: "r2 = ''-'' @ g3" using b1 b2 by metis
  show "s = g1 @ ''-'' @ g2 @ ''-'' @ g3"
    using s r1 r2 by simp
qed

lemma fromString_toString:
  assumes "valid_datum d"
  shows "fromString (toString d) = Inr d"
proof -
  note r = valid_datum_ranges [OF assms]
  let ?y = "fixedDigits 4 (nat (year d))" and ?m = "fixedDigits 2 (nat (month d))"
    and ?d = "fixedDigits 2 (nat (day d))"
  have ts: "toString d = ?y @ ''-'' @ ?m @ ''-'' @ ?d"
    using r by (rule toString_fixedDigits)
  have len: "length (toString d) = 10" by (simp add: ts length_fixedDigits)
  have m: "REGEX_match (toString d) = Some (?y, ?m, ?d)"
    unfolding ts by (rule REGEX_match_canonical) (simp_all add: length_fixedDigits isDigit_fixedDigits)
  have ne: "?y \<noteq> []" "?m \<noteq> []" "?d \<noteq> []"
    using length_fixedDigits [of 4 "nat (year d)"] length_fixedDigits [of 2 "nat (month d)"]
      length_fixedDigits [of 2 "nat (day d)"] by auto
  have py: "parseInt ?y = Integral (year d)"
    using r by (simp add: parseInt_digits isDigit_fixedDigits ne digitsValue_fixedDigits)
  have pm: "parseInt ?m = Integral (month d)"
    using r by (simp add: parseInt_digits isDigit_fixedDigits ne digitsValue_fixedDigits)
  have pd: "parseInt ?d = Integral (day d)"
    using r by (simp add: parseInt_digits isDigit_fixedDigits ne digitsValue_fixedDigits)
  have "Datum_new (Integral (year d)) (Integral (month d)) (Integral (day d)) = Inr d"
    using assms daysInMonth_bounds [of "year d" "month d"]
    by (simp add: Datum_new_Integral valid_datum_def)
  then show ?thesis
    by (simp add: fromString_def len m py pm pd)
qed

lemma toString_fromString:
  assumes "fromString s = Inr r"
  shows "toString r = s"
proof -
  from assms obtain g1 g2 g3 where m: "REGEX_match s = Some (g1, g2, g3)"
    and new: "Datum_new (parseInt g1) (parseInt g2) (parseInt g3) = Inr r"
    by (auto simp: fromString_def split: if_splits option.splits)
  note g = REGEX_match_Some [OF m]
  have ne: "g1 \<noteq> []" "g2 \<noteq> []" "g3 \<noteq> []" using g(2-4) by auto
  have p: "parseInt g1 = Integral (int (digitsValue g1))"
    "parseInt g2 = Integral (int (digitsValue g2))"
    "parseInt g3 = Integral (int (digitsValue g3))"
    using g(5-7) ne by (simp_all add: parseInt_digits)
  have r: "r = \<lparr>year = int (digitsValue g1), month = int (digitsValue g2), day = int (digitsValue g3)\<rparr>"
    using new unfolding p by (auto simp: Datum_new_Integral split: if_splits)
  have b: "digitsValue g1 < 10 ^ 4" "digitsValue g2 < 10 ^ 2" "digitsValue g3 < 10 ^ 2"
    using fixedDigits_digitsValue [OF g(5)] fixedDigits_digitsValue [OF g(6)]
      fixedDigits_digitsValue [OF g(7)] g(2-4) by simp_all
  have f: "fixedDigits 4 (digitsValue g1) = g1" "fixedDigits 2 (digitsValue g2) = g2"
    "fixedDigits 2 (digitsValue g3) = g3"
    using fixedDigits_digitsValue [OF g(5)] fixedDigits_digitsValue [OF g(6)]
      fixedDigits_digitsValue [OF g(7)] g(2-4) by simp_all
  have "toString r = fixedDigits 4 (nat (year r)) @ ''-'' @ fixedDigits 2 (nat (month r)) @ ''-'' @
           fixedDigits 2 (nat (day r))"
    using b by (intro toString_fixedDigits) (simp_all add: r)
  then show ?thesis
    using f g(1) by (simp add: r)
qed

lemma length4: "length xs = 4 \<Longrightarrow> \<exists>a b c d. xs = [a, b, c, d]"
  by (auto simp: length_Suc_conv numeral_eq_Suc)

lemma length2: "length xs = 2 \<Longrightarrow> \<exists>a b. xs = [a, b]"
  by (auto simp: length_Suc_conv numeral_eq_Suc)

lemma length10:
  "length xs = 10 \<Longrightarrow> \<exists>a b c d e f g h i j. xs = [a, b, c, d, e, f, g, h, i, j]"
  by (auto simp: length_Suc_conv numeral_eq_Suc)

lemma REGEX_match_matchesFormat:
  assumes "REGEX_match s = Some (g1, g2, g3)"
  shows "matchesFormat s \<and> g1 = take 4 s \<and> g2 = take 2 (drop 5 s) \<and> g3 = take 2 (drop 8 s)"
proof -
  note g = REGEX_match_Some [OF assms]
  obtain a b c d where g1: "g1 = [a, b, c, d]" using length4 [OF g(2)] by blast
  obtain e f where g2: "g2 = [e, f]" using length2 [OF g(3)] by blast
  obtain h i where g3: "g3 = [h, i]" using length2 [OF g(4)] by blast
  have s: "s = [a, b, c, d, CHR ''-'', e, f, CHR ''-'', h, i]"
    using g(1) by (simp add: g1 g2 g3)
  show ?thesis
    using g(5-7) by (simp add: s g1 g2 g3 matchesFormat_def)
qed

lemma matchesFormat_REGEX_match:
  assumes "matchesFormat s"
  shows "REGEX_match s = Some (take 4 s, take 2 (drop 5 s), take 2 (drop 8 s))"
proof -
  from assms have "length s = 10" by (simp add: matchesFormat_def)
  then have "\<exists>a b c d e f g h i j. s = [a, b, c, d, e, f, g, h, i, j]"
    by (rule length10)
  then obtain a b c d e f g h i j where s: "s = [a, b, c, d, e, f, g, h, i, j]"
    by (elim exE) blast
  show ?thesis
    using assms by (simp add: s matchesFormat_def REGEX_match_def)
qed

lemma stringLess_append:
  "length xs = length ys \<Longrightarrow>
   stringLess (xs @ u) (ys @ v) \<longleftrightarrow> stringLess xs ys \<or> (xs = ys \<and> stringLess u v)"
proof (induction xs ys rule: list_induct2)
  case Nil
  then show ?case by simp
next
  case (Cons x xs y ys)
  then show ?case by auto
qed

lemma stringLess_irrefl: "\<not> stringLess xs xs"
  by (induction xs) simp_all

lemma fixedDigits_inj:
  assumes "a < 10 ^ k" "b < 10 ^ k"
  shows "fixedDigits k a = fixedDigits k b \<longleftrightarrow> a = b"
  using digitsValue_fixedDigits [OF assms(1)] digitsValue_fixedDigits [OF assms(2)] by metis

lemma stringLess_digitChar:
  assumes "a < 10" "b < 10"
  shows "stringLess [digitChar a] [digitChar b] \<longleftrightarrow> a < b"
proof -
  have "digitChar a = digitChar b \<longleftrightarrow> a = b"
    using digitValue_digitChar [OF assms(1)] digitValue_digitChar [OF assms(2)] by metis
  then show ?thesis
    using assms by (auto simp: of_char_digitChar)
qed

lemma stringLess_fixedDigits:
  "a < 10 ^ k \<Longrightarrow> b < 10 ^ k \<Longrightarrow> stringLess (fixedDigits k a) (fixedDigits k b) \<longleftrightarrow> a < b"
proof (induction k arbitrary: a b)
  case 0
  then show ?case by simp
next
  case (Suc k)
  have lt: "a div 10 < 10 ^ k" "b div 10 < 10 ^ k"
    using Suc.prems by (simp_all add: less_mult_imp_div_less mult.commute)
  have "stringLess (fixedDigits (Suc k) a) (fixedDigits (Suc k) b) \<longleftrightarrow>
          stringLess (fixedDigits k (a div 10)) (fixedDigits k (b div 10)) \<or>
          (fixedDigits k (a div 10) = fixedDigits k (b div 10) \<and>
           stringLess [digitChar (a mod 10)] [digitChar (b mod 10)])"
    by (simp add: stringLess_append length_fixedDigits)
  also have "\<dots> \<longleftrightarrow> a div 10 < b div 10 \<or> (a div 10 = b div 10 \<and> a mod 10 < b mod 10)"
  proof -
    have m: "a mod 10 < 10" "b mod 10 < 10" by simp_all
    show ?thesis
      unfolding Suc.IH [OF lt] fixedDigits_inj [OF lt] stringLess_digitChar [OF m] ..
  qed
  also have "\<dots> \<longleftrightarrow> a < b"
  proof -
    define qa ra qb rb where "qa = a div 10" and "ra = a mod 10" and "qb = b div 10" and "rb = b mod 10"
    have "a = 10 * qa + ra" "b = 10 * qb + rb" "ra < 10" "rb < 10"
      by (simp_all add: qa_def ra_def qb_def rb_def)
    then have "(qa < qb \<or> (qa = qb \<and> ra < rb)) \<longleftrightarrow> a < b" by arith
    then show ?thesis by (simp only: qa_def ra_def qb_def rb_def)
  qed
  finally show ?case .
qed

lemma fromString_wellformed:
  assumes "matchesFormat s"
  shows "fromString s =
           Datum_new
             (Integral (int (1000 * digitValue (s ! 0) + 100 * digitValue (s ! 1) +
                             10 * digitValue (s ! 2) + digitValue (s ! 3))))
             (Integral (int (10 * digitValue (s ! 5) + digitValue (s ! 6))))
             (Integral (int (10 * digitValue (s ! 8) + digitValue (s ! 9))))"
proof -
  from assms have "length s = 10" by (simp add: matchesFormat_def)
  then have "\<exists>a b c d e f g h i j. s = [a, b, c, d, e, f, g, h, i, j]"
    by (rule length10)
  then obtain a b c d e f g h i j where s: "s = [a, b, c, d, e, f, g, h, i, j]"
    by (elim exE) blast
  have dg: "isDigit a" "isDigit b" "isDigit c" "isDigit d" "isDigit f" "isDigit g"
    "isDigit i" "isDigit j" and hy: "e = CHR ''-''" "h = CHR ''-''"
    using assms by (simp_all add: s matchesFormat_def)
  have m: "REGEX_match s = Some ([a, b, c, d], [f, g], [i, j])"
    using matchesFormat_REGEX_match [OF assms] by (simp add: s)
  have p1: "parseInt [a, b, c, d] =
              Integral (int (1000 * digitValue a + 100 * digitValue b + 10 * digitValue c + digitValue d))"
    using dg by (simp add: parseInt_digits digitsValue_def)
  have p2: "parseInt [f, g] = Integral (int (10 * digitValue f + digitValue g))"
    using dg by (simp add: parseInt_digits digitsValue_def)
  have p3: "parseInt [i, j] = Integral (int (10 * digitValue i + digitValue j))"
    using dg by (simp add: parseInt_digits digitsValue_def)
  have "fromString s = Datum_new (parseInt [a, b, c, d]) (parseInt [f, g]) (parseInt [i, j])"
    using \<open>length s = 10\<close> by (simp add: fromString_def m)
  then show ?thesis
    unfolding p1 p2 p3 by (simp add: s)
qed

lemma fromString_malformed:
  assumes "length s \<noteq> 10 \<or> \<not> matchesFormat s"
  shows "fromString s = Inl (RangeError (if length s \<noteq> 10 then StrLength else StrFormat))"
proof (cases "length s = 10")
  case True
  then have "\<not> matchesFormat s" using assms by simp
  then have "REGEX_match s = None"
    using REGEX_match_matchesFormat [of s] by (cases "REGEX_match s") auto
  then show ?thesis using True by (simp add: fromString_def)
next
  case False
  then show ?thesis by (simp add: fromString_def)
qed

lemma fromString_2019_02_30: "fromString ''2019-02-30'' = Inl (RangeError DayExceedsMonth)"
  by code_simp

lemma toString_order:
  assumes "valid_datum a" "valid_datum b"
  shows "stringLess (toString a) (toString b) \<longleftrightarrow> isBefore a b"
    and "toString a = toString b \<longleftrightarrow> isEqual a b"
proof -
  note ra = valid_datum_ranges [OF assms(1)] and rb = valid_datum_ranges [OF assms(2)]
  have ta: "toString a = fixedDigits 4 (nat (year a)) @ CHR ''-'' #
              fixedDigits 2 (nat (month a)) @ CHR ''-'' # fixedDigits 2 (nat (day a))"
    using toString_fixedDigits [OF ra] by simp
  have tb: "toString b = fixedDigits 4 (nat (year b)) @ CHR ''-'' #
              fixedDigits 2 (nat (month b)) @ CHR ''-'' # fixedDigits 2 (nat (day b))"
    using toString_fixedDigits [OF rb] by simp
  have y: "nat (year a) < 10 ^ 4" "nat (year b) < 10 ^ 4"
    and m: "nat (month a) < 10 ^ 2" "nat (month b) < 10 ^ 2"
    and d: "nat (day a) < 10 ^ 2" "nat (day b) < 10 ^ 2"
    using ra rb by simp_all
  have sd: "stringLess (fixedDigits 2 (nat (day a))) (fixedDigits 2 (nat (day b))) \<longleftrightarrow> day a < day b"
    using stringLess_fixedDigits [OF d] ra rb by auto
  have ed: "fixedDigits 2 (nat (day a)) = fixedDigits 2 (nat (day b)) \<longleftrightarrow> day a = day b"
    using fixedDigits_inj [OF d] ra rb by auto
  have sm: "stringLess (fixedDigits 2 (nat (month a))) (fixedDigits 2 (nat (month b))) \<longleftrightarrow> month a < month b"
    using stringLess_fixedDigits [OF m] ra rb by auto
  have em: "fixedDigits 2 (nat (month a)) = fixedDigits 2 (nat (month b)) \<longleftrightarrow> month a = month b"
    using fixedDigits_inj [OF m] ra rb by auto
  have sy: "stringLess (fixedDigits 4 (nat (year a))) (fixedDigits 4 (nat (year b))) \<longleftrightarrow> year a < year b"
    using stringLess_fixedDigits [OF y] ra rb by auto
  have ey: "fixedDigits 4 (nat (year a)) = fixedDigits 4 (nat (year b)) \<longleftrightarrow> year a = year b"
    using fixedDigits_inj [OF y] ra rb by auto
  have tail: "stringLess (fixedDigits 2 (nat (month a)) @ CHR ''-'' # fixedDigits 2 (nat (day a)))
                (fixedDigits 2 (nat (month b)) @ CHR ''-'' # fixedDigits 2 (nat (day b))) \<longleftrightarrow>
              month a < month b \<or> (month a = month b \<and> day a < day b)"
    by (simp add: stringLess_append length_fixedDigits sm em sd)
  show "stringLess (toString a) (toString b) \<longleftrightarrow> isBefore a b"
    unfolding ta tb
    by (auto simp add: stringLess_append length_fixedDigits sy ey tail isBefore_def)
  show "toString a = toString b \<longleftrightarrow> isEqual a b"
    unfolding ta tb
    by (simp add: length_fixedDigits ey em ed isEqual_def)
qed

section \<open>The claims\<close>

text \<open>
  C7. For every year in 0..9999, \<open>isLeapYear\<close> is true exactly when the year is divisible
  by 4 and not by 100, or divisible by 400; and for every such year and every month in 1..12
  \<open>getDaysInMonth\<close> returns the entry of the table 31, 28/29, 31, 30, 31, 30, 31, 31, 30, 31,
  30, 31, February's entry being 29 exactly when \<open>isLeapYear\<close> holds of the year.
\<close>

theorem calendar_tables:
  assumes "0 \<le> y" "y \<le> 9999"
  shows "isLeapYear (Integral y) = Inr ((4 dvd y \<and> \<not> 100 dvd y) \<or> 400 dvd y) \<and>
         (\<forall>m. 1 \<le> m \<and> m \<le> 12 \<longrightarrow>
            getDaysInMonth (Integral y) (Integral m) =
              Inr ([31, (if isLeapYear (Integral y) = Inr True then 29 else 28),
                    31, 30, 31, 30, 31, 31, 30, 31, 30, 31] ! nat (m - 1)))"
proof -
  have leap: "isLeapYear (Integral y) = Inr (leapYear y)"
    using assms by (simp add: isLeapYear_Integral)
  have "leapYear y = ((4 dvd y \<and> \<not> 100 dvd y) \<or> 400 dvd y)"
    by (simp add: leapYear_def mod_eq_0_iff_dvd)
  moreover have "getDaysInMonth (Integral y) (Integral m) =
              Inr ([31, (if leapYear y then 29 else 28),
                    31, 30, 31, 30, 31, 31, 30, 31, 30, 31] ! nat (m - 1))"
    if "1 \<le> m" "m \<le> 12" for m
    using month_cases [OF that] assms that
    by (auto simp: getDaysInMonth_Integral daysInMonth_def)
  ultimately show ?thesis using leap by simp
qed

theorem calendar_tables_witness:
  "isLeapYear (Integral 2016) = Inr True \<and> getDaysInMonth (Integral 2016) (Integral 2) = Inr 29
   \<and> isLeapYear (Integral 1900) = Inr False \<and> getDaysInMonth (Integral 1900) (Integral 2) = Inr 28"
  using calendar_tables [of 2016] calendar_tables [of 1900] by simp

text \<open>
  C1. Every \<open>Datum\<close> that an operation returns is calendar-valid: the constructor,
  \<open>fromString\<close>, \<open>fromDate\<close>, \<open>addDays\<close>, \<open>subtractDays\<close>, and the dates that the loops of
  \<open>addDays\<close>, \<open>deltaDays\<close> (first day of the next month) and \<open>subtractDays\<close> (last day of
  the previous month) build on the way. Nothing is assumed of the receiver or the arguments.
\<close>

theorem every_operation_returns_valid_datum:
  "(\<forall>r. Datum_new yn mn dn = Inr r \<longrightarrow> valid_datum r) \<and>
   (\<forall>r. fromString str = Inr r \<longrightarrow> valid_datum r) \<and>
   (\<forall>r. fromDate date = Inr r \<longrightarrow> valid_datum r) \<and>
   (\<forall>r. addDays this days = Inr r \<longrightarrow> valid_datum r) \<and>
   (\<forall>r. subtractDays this days = Inr r \<longrightarrow> valid_datum r) \<and>
   (\<forall>r. firstDayOfNextMonth current = Inr r \<longrightarrow> valid_datum r) \<and>
   (\<forall>r. lastDayOfPreviousMonth current = Inr r \<longrightarrow> valid_datum r)"
proof (intro conjI allI impI)
  fix r assume "Datum_new yn mn dn = Inr r"
  then show "valid_datum r" by (rule Datum_new_valid)
next
  fix r assume "fromString str = Inr r"
  then show "valid_datum r"
    by (auto simp: fromString_def split: if_splits option.splits dest: Datum_new_valid)
next
  fix r assume "fromDate date = Inr r"
  then show "valid_datum r" unfolding fromDate_def by (rule Datum_new_valid)
next
  fix r assume "addDays this days = Inr r"
  then show "valid_datum r"
    by (auto simp: addDays_def split: number.splits if_splits dest: addDays_loop_valid)
next
  fix r assume "subtractDays this days = Inr r"
  then show "valid_datum r"
    by (auto simp: subtractDays_def split: number.splits if_splits dest: subtractDays_loop_valid)
next
  fix r assume "firstDayOfNextMonth current = Inr r"
  then show "valid_datum r" by (rule firstDayOfNextMonth_valid)
next
  fix r assume "lastDayOfPreviousMonth current = Inr r"
  then show "valid_datum r" by (rule lastDayOfPreviousMonth_valid)
qed

theorem every_operation_returns_valid_datum_witness:
  "valid_datum \<lparr>year = 2020, month = 2, day = 29\<rparr> \<and>
   valid_datum \<lparr>year = 2019, month = 8, day = 26\<rparr> \<and>
   valid_datum \<lparr>year = 2017, month = 5, day = 15\<rparr> \<and>
   valid_datum \<lparr>year = 2029, month = 1, day = 3\<rparr> \<and>
   valid_datum \<lparr>year = 2028, month = 12, day = 30\<rparr> \<and>
   valid_datum \<lparr>year = 2020, month = 3, day = 1\<rparr> \<and>
   valid_datum \<lparr>year = 2020, month = 1, day = 31\<rparr>"
proof -
  have 1: "Datum_new (Integral 2020) (Integral 2) (Integral 29)
             = Inr \<lparr>year = 2020, month = 2, day = 29\<rparr>"
    by code_simp
  have 2: "fromString ''2019-08-26'' = Inr \<lparr>year = 2019, month = 8, day = 26\<rparr>"
    by code_simp
  have 3: "fromDate \<lparr>getFullYear = Integral 2017, getMonth = Integral 4, getDate = Integral 15\<rparr>
             = Inr \<lparr>year = 2017, month = 5, day = 15\<rparr>"
    by code_simp
  have 4: "addDays \<lparr>year = 2029, month = 1, day = 1\<rparr> (Integral 2)
             = Inr \<lparr>year = 2029, month = 1, day = 3\<rparr>"
    by code_simp
  have 5: "subtractDays \<lparr>year = 2029, month = 1, day = 1\<rparr> (Integral 2)
             = Inr \<lparr>year = 2028, month = 12, day = 30\<rparr>"
    by code_simp
  have 6: "firstDayOfNextMonth \<lparr>year = 2020, month = 2, day = 29\<rparr>
             = Inr \<lparr>year = 2020, month = 3, day = 1\<rparr>"
    by code_simp
  have 7: "lastDayOfPreviousMonth \<lparr>year = 2020, month = 2, day = 29\<rparr>
             = Inr \<lparr>year = 2020, month = 1, day = 31\<rparr>"
    by code_simp
  show ?thesis
    using every_operation_returns_valid_datum
      [where yn = "Integral 2020" and mn = "Integral 2" and dn = "Integral 29"
         and str = "''2019-08-26''"
         and date = "\<lparr>getFullYear = Integral 2017, getMonth = Integral 4, getDate = Integral 15\<rparr>"
         and this = "\<lparr>year = 2029, month = 1, day = 1\<rparr>" and days = "Integral 2"
         and current = "\<lparr>year = 2020, month = 2, day = 29\<rparr>"]
    unfolding 1 2 3 4 5 6 7 by simp
qed

text \<open>
  C9. \<open>addDays\<close> can fail on a valid date at the upper bound of the calendar. For a valid
  \<open>d\<close> and an integer \<open>n \<ge> 0\<close>, \<open>d.addDays(n)\<close> returns a date if and only if the day
  \<open>n\<close> days after \<open>d\<close> is no later than 9999-12-31; when it does not return, it throws the
  year-range error of \<open>assertIsYear\<close>; when it returns, the result is the valid date
  \<open>n\<close> days after \<open>d\<close>.
\<close>

theorem addDays_succeeds_iff:
  assumes "valid_datum d" "0 \<le> n"
  shows "((\<exists>r. addDays d (Integral n) = Inr r) \<longleftrightarrow>
            dayNumber d + n \<le> dayNumber \<lparr>year = 9999, month = 12, day = 31\<rparr>) \<and>
         ((\<nexists>r. addDays d (Integral n) = Inr r) \<longrightarrow>
            addDays d (Integral n) = Inl (TypeError YearNotInRange)) \<and>
         (\<forall>r. addDays d (Integral n) = Inr r \<longrightarrow>
            valid_datum r \<and> dayNumber r = dayNumber d + n)"
proof -
  have eq: "addDays d (Integral n) = addDays_loop d n"
    using assms(2) by (simp add: addDays_def)
  have tot: "if dayNumber d + n \<le> 3652425 then \<exists>r. addDays_loop d n = Inr r
             else addDays_loop d n = Inl (TypeError YearNotInRange)"
    using addDays_loop_total [OF assms] .
  show ?thesis
    unfolding eq dayNumber_last
    using tot addDays_loop_sound [OF assms] by (auto split: if_splits)
qed

theorem addDays_succeeds_iff_witness:
  "addDays \<lparr>year = 9999, month = 12, day = 31\<rparr> (Integral 1) = Inl (TypeError YearNotInRange) \<and>
   \<not> dayNumber \<lparr>year = 9999, month = 12, day = 31\<rparr> + 1
       \<le> dayNumber \<lparr>year = 9999, month = 12, day = 31\<rparr> \<and>
   (\<exists>r. addDays \<lparr>year = 9999, month = 12, day = 30\<rparr> (Integral 1) = Inr r)"
proof -
  have v1: "valid_datum \<lparr>year = 9999, month = 12, day = 31\<rparr>" by code_simp
  have v2: "valid_datum \<lparr>year = 9999, month = 12, day = 30\<rparr>" by code_simp
  have d2: "dayNumber \<lparr>year = 9999, month = 12, day = 30\<rparr> = 3652424" by code_simp
  have n: "(0::int) \<le> 1" by simp
  show ?thesis
    using addDays_succeeds_iff [OF v1 n] addDays_succeeds_iff [OF v2 n]
    by (simp add: dayNumber_last d2)
qed

text \<open>
  C3, as stated: for every valid \<open>d\<close> and every integer \<open>n \<ge> 0\<close>,
  \<open>d.addDays(n).subtractDays(n)\<close> equals \<open>d\<close>. It fails where \<open>addDays\<close> leaves the
  calendar: one day after 9999-12-31 the expression throws.
\<close>

theorem addDays_subtractDays_counterexample:
  "valid_datum \<lparr>year = 9999, month = 12, day = 31\<rparr> \<and> (0::int) \<le> 1 \<and>
   addDays_then_subtractDays \<lparr>year = 9999, month = 12, day = 31\<rparr> (Integral 1)
     = Inl (TypeError YearNotInRange) \<and>
   addDays_then_subtractDays \<lparr>year = 9999, month = 12, day = 31\<rparr> (Integral 1)
     \<noteq> Inr \<lparr>year = 9999, month = 12, day = 31\<rparr>"
  by code_simp

text \<open>
  C3, amended: for every valid \<open>d\<close> and every integer \<open>n \<ge> 0\<close> for which \<open>d.addDays(n)\<close>
  returns a date \<open>d'\<close>, \<open>d'.subtractDays(n)\<close> returns \<open>d\<close>.
\<close>

theorem addDays_subtractDays_inverse:
  assumes "valid_datum d" "0 \<le> n" "addDays d (Integral n) = Inr d'"
  shows "subtractDays d' (Integral n) = Inr d \<and> addDays_then_subtractDays d (Integral n) = Inr d"
proof -
  have "addDays_loop d n = Inr d'"
    using assms(2,3) by (simp add: addDays_def)
  then have v': "valid_datum d'" and n': "dayNumber d' = dayNumber d + n"
    using addDays_loop_sound [OF assms(1,2)] by simp_all
  have "n < dayNumber d'"
    using n' dayNumber_range(1) [OF assms(1)] by simp
  then obtain r where r: "subtractDays_loop d' n = Inr r"
    using subtractDays_loop_total [OF v' assms(2)] by auto
  then have "valid_datum r" "dayNumber r = dayNumber d"
    using subtractDays_loop_sound [OF v' assms(2) r] n' by simp_all
  then have "r = d" using assms(1) by (intro dayNumber_inj)
  then have "subtractDays d' (Integral n) = Inr d"
    using r assms(2) by (simp add: subtractDays_def)
  then show ?thesis
    by (simp add: addDays_then_subtractDays_def assms(3))
qed

theorem addDays_subtractDays_inverse_witness:
  "subtractDays \<lparr>year = 2029, month = 1, day = 1\<rparr> (Integral 2)
     = Inr \<lparr>year = 2028, month = 12, day = 30\<rparr> \<and>
   addDays_then_subtractDays \<lparr>year = 2028, month = 12, day = 30\<rparr> (Integral 2)
     = Inr \<lparr>year = 2028, month = 12, day = 30\<rparr>"
proof -
  have v: "valid_datum \<lparr>year = 2028, month = 12, day = 30\<rparr>" by code_simp
  have n: "(0::int) \<le> 2" by simp
  have a: "addDays \<lparr>year = 2028, month = 12, day = 30\<rparr> (Integral 2)
             = Inr \<lparr>year = 2029, month = 1, day = 1\<rparr>" by code_simp
  show ?thesis by (rule addDays_subtractDays_inverse [OF v n a])
qed

text \<open>
  C4. For all valid \<open>a\<close> and \<open>b\<close>, \<open>a.deltaDays(b)\<close> equals \<open>b.deltaDays(a)\<close>, it returns a
  non-negative number, and whenever \<open>a\<close> is before \<open>b\<close>, \<open>a.addDays(a.deltaDays(b))\<close> returns
  \<open>b\<close>.
\<close>

theorem deltaDays_symmetric_and_addDays_distance:
  assumes "valid_datum a" "valid_datum b"
  shows "deltaDays a b = deltaDays b a \<and>
         (\<exists>n. deltaDays a b = Inr n \<and> 0 \<le> n) \<and>
         (isBefore a b \<longrightarrow> addDays_deltaDays a b = Inr b)"
proof (intro conjI impI)
  show "deltaDays a b = deltaDays b a"
    by (simp add: deltaDays_eq assms abs_minus_commute)
  show "\<exists>n. deltaDays a b = Inr n \<and> 0 \<le> n"
    by (simp add: deltaDays_eq assms)
  assume lt: "isBefore a b"
  define n where "n = dayNumber b - dayNumber a"
  have pos: "0 \<le> n" using dayNumber_mono [OF assms lt] by (simp add: n_def)
  have dd: "deltaDays a b = Inr n"
    using pos by (simp add: deltaDays_eq assms n_def)
  have "dayNumber a + n \<le> 3652425"
    using dayNumber_range(2) [OF assms(2)] by (simp add: n_def)
  then obtain r where r: "addDays_loop a n = Inr r"
    using addDays_loop_total [OF assms(1) pos] by auto
  then have "valid_datum r" "dayNumber r = dayNumber b"
    using addDays_loop_sound [OF assms(1) pos r] by (simp_all add: n_def)
  then have "r = b" using assms(2) by (intro dayNumber_inj)
  then show "addDays_deltaDays a b = Inr b"
    using r pos by (simp add: addDays_deltaDays_def dd addDays_def)
qed

theorem deltaDays_symmetric_and_addDays_distance_witness:
  "deltaDays \<lparr>year = 2018, month = 4, day = 3\<rparr> \<lparr>year = 2018, month = 10, day = 5\<rparr>
     = deltaDays \<lparr>year = 2018, month = 10, day = 5\<rparr> \<lparr>year = 2018, month = 4, day = 3\<rparr> \<and>
   addDays_deltaDays \<lparr>year = 2018, month = 4, day = 3\<rparr> \<lparr>year = 2018, month = 10, day = 5\<rparr>
     = Inr \<lparr>year = 2018, month = 10, day = 5\<rparr>"
proof -
  have va: "valid_datum \<lparr>year = 2018, month = 4, day = 3\<rparr>" by code_simp
  have vb: "valid_datum \<lparr>year = 2018, month = 10, day = 5\<rparr>" by code_simp
  have lt: "isBefore \<lparr>year = 2018, month = 4, day = 3\<rparr> \<lparr>year = 2018, month = 10, day = 5\<rparr>"
    by code_simp
  show ?thesis
    using deltaDays_symmetric_and_addDays_distance [OF va vb] lt by blast
qed

text \<open>
  C5. \<open>weekday()\<close> takes the unsigned \<open>deltaDays\<close> to the reference Monday 2019-08-26
  modulo 7 and maps the remainder to a weekday, in the flipped direction for dates before
  the reference; the weekday it returns is the Gregorian one, its ordinal being the signed
  distance in days to the reference Monday modulo 7. In particular 2019-08-26 and
  2019-08-19 are Mondays and 1988-09-11 is a Sunday.
\<close>

theorem weekday_from_deltaDays_modulo_7:
  "(valid_datum d \<longrightarrow>
      (\<exists>delta w. deltaDays d referenceMonday = Inr delta \<and> weekday d = Inr w \<and>
         weekdayOrdinal w =
           (if isBefore d referenceMonday then (7 - delta mod 7) mod 7 else delta mod 7) \<and>
         weekdayOrdinal w = (dayNumber d - dayNumber referenceMonday) mod 7)) \<and>
   Datum_new (Integral 2019) (Integral 8) (Integral 26) = Inr referenceMonday \<and>
   weekday \<lparr>year = 2019, month = 8, day = 26\<rparr> = Inr Monday \<and>
   weekday \<lparr>year = 2019, month = 8, day = 19\<rparr> = Inr Monday \<and>
   weekday \<lparr>year = 1988, month = 9, day = 11\<rparr> = Inr Sunday"
proof (intro conjI impI)
  assume v: "valid_datum d"
  obtain w where w: "weekday d = Inr w"
    and o1: "weekdayOrdinal w =
               (if isBefore d referenceMonday
                then (7 - \<bar>dayNumber referenceMonday - dayNumber d\<bar> mod 7) mod 7
                else \<bar>dayNumber referenceMonday - dayNumber d\<bar> mod 7)"
    using weekday_eq(2) [OF v] by blast
  obtain w' where w': "weekday d = Inr w'"
    and o2: "weekdayOrdinal w' = (dayNumber d - dayNumber referenceMonday) mod 7"
    using weekday_dayNumber [OF v] by blast
  have "w' = w" using w w' by simp
  then show "\<exists>delta w. deltaDays d referenceMonday = Inr delta \<and> weekday d = Inr w \<and>
         weekdayOrdinal w =
           (if isBefore d referenceMonday then (7 - delta mod 7) mod 7 else delta mod 7) \<and>
         weekdayOrdinal w = (dayNumber d - dayNumber referenceMonday) mod 7"
    using weekday_eq(1) [OF v] w o1 o2 by blast
qed (rule referenceMonday_new weekday_2019_08_26 weekday_2019_08_19 weekday_1988_09_11)+

theorem weekday_from_deltaDays_modulo_7_witness:
  "\<exists>delta w. deltaDays \<lparr>year = 2018, month = 10, day = 5\<rparr> referenceMonday = Inr delta \<and>
     weekday \<lparr>year = 2018, month = 10, day = 5\<rparr> = Inr w \<and>
     weekdayOrdinal w =
       (if isBefore \<lparr>year = 2018, month = 10, day = 5\<rparr> referenceMonday
        then (7 - delta mod 7) mod 7 else delta mod 7) \<and>
     weekdayOrdinal w = (dayNumber \<lparr>year = 2018, month = 10, day = 5\<rparr> - dayNumber referenceMonday) mod 7"
proof -
  have v: "valid_datum \<lparr>year = 2018, month = 10, day = 5\<rparr>"
    by (simp add: valid_datum_def daysInMonth_def)
  show ?thesis
    using weekday_from_deltaDays_modulo_7 [of "\<lparr>year = 2018, month = 10, day = 5\<rparr>"] v by blast
qed

text \<open>
  C8. \<open>min\<close> and \<open>max\<close> return \<open>null\<close> exactly on the empty sequence; otherwise \<open>min\<close>
  returns an element of the sequence that no element is before, and \<open>max\<close> an element that
  no element is after.
\<close>

theorem min_max_extremal:
  "(Datum_min datums = None \<longleftrightarrow> datums = []) \<and>
   (Datum_max datums = None \<longleftrightarrow> datums = []) \<and>
   (\<forall>m. Datum_min datums = Some m \<longrightarrow>
          m \<in> set datums \<and> (\<forall>x\<in>set datums. \<not> isBefore x m)) \<and>
   (\<forall>m. Datum_max datums = Some m \<longrightarrow>
          m \<in> set datums \<and> (\<forall>x\<in>set datums. \<not> isAfter x m))"
proof (intro conjI allI impI)
  show "Datum_min datums = None \<longleftrightarrow> datums = []"
    by (simp add: Datum_min_def min_loop_None)
  show "Datum_max datums = None \<longleftrightarrow> datums = []"
    by (simp add: Datum_max_def max_loop_None)
next
  fix m assume "Datum_min datums = Some m"
  then have *: "min_loop None datums = Some m" by (simp add: Datum_min_def)
  from min_loop_Some [OF *] show "m \<in> set datums" by simp
  from min_loop_Some [OF *] show "\<forall>x\<in>set datums. \<not> isBefore x m" by simp
next
  fix m assume "Datum_max datums = Some m"
  then have *: "max_loop None datums = Some m" by (simp add: Datum_max_def)
  from max_loop_Some [OF *] show "m \<in> set datums" by simp
  from max_loop_Some [OF *] show "\<forall>x\<in>set datums. \<not> isAfter x m" by simp
qed

theorem min_max_extremal_witness:
  "Datum_min [\<lparr>year = 2019, month = 8, day = 29\<rparr>, \<lparr>year = 1373, month = 10, day = 11\<rparr>,
              \<lparr>year = 5159, month = 4, day = 22\<rparr>] = Some \<lparr>year = 1373, month = 10, day = 11\<rparr> \<and>
   Datum_max [\<lparr>year = 2019, month = 8, day = 29\<rparr>, \<lparr>year = 1373, month = 10, day = 11\<rparr>,
              \<lparr>year = 5159, month = 4, day = 22\<rparr>] = Some \<lparr>year = 5159, month = 4, day = 22\<rparr> \<and>
   \<not> isBefore \<lparr>year = 2019, month = 8, day = 29\<rparr> \<lparr>year = 1373, month = 10, day = 11\<rparr> \<and>
   \<not> isAfter \<lparr>year = 2019, month = 8, day = 29\<rparr> \<lparr>year = 5159, month = 4, day = 22\<rparr> \<and>
   Datum_min [] = None \<and> Datum_max [] = None"
proof -
  let ?ds = "[\<lparr>year = 2019, month = 8, day = 29\<rparr>, \<lparr>year = 1373, month = 10, day = 11\<rparr>,
              \<lparr>year = 5159, month = 4, day = 22\<rparr>]"
  have mn: "Datum_min ?ds = Some \<lparr>year = 1373, month = 10, day = 11\<rparr>" by code_simp
  have mx: "Datum_max ?ds = Some \<lparr>year = 5159, month = 4, day = 22\<rparr>" by code_simp
  show ?thesis
    using min_max_extremal [of ?ds] min_max_extremal [of "[]"] mn mx by simp
qed

text \<open>
  C2. String round trip: for every valid \<open>d\<close>, \<open>fromString(toString(d))\<close> returns \<open>d\<close>; and
  for every string \<open>s\<close> that \<open>fromString\<close> accepts, \<open>toString(fromString(s))\<close> is \<open>s\<close>.
\<close>

theorem string_round_trip:
  "(valid_datum d \<longrightarrow> fromString (toString d) = Inr d) \<and>
   (\<forall>r. fromString s = Inr r \<longrightarrow> toString r = s)"
  using fromString_toString toString_fromString by blast

theorem string_round_trip_witness:
  "fromString (toString \<lparr>year = 600, month = 3, day = 27\<rparr>)
     = Inr \<lparr>year = 600, month = 3, day = 27\<rparr> \<and>
   toString \<lparr>year = 600, month = 3, day = 27\<rparr> = ''0600-03-27''"
proof -
  have v: "valid_datum \<lparr>year = 600, month = 3, day = 27\<rparr>"
    by (simp add: valid_datum_def daysInMonth_def)
  have f: "fromString ''0600-03-27'' = Inr \<lparr>year = 600, month = 3, day = 27\<rparr>"
    by code_simp
  show ?thesis
    using string_round_trip [of "\<lparr>year = 600, month = 3, day = 27\<rparr>" "''0600-03-27''"] v f
    by blast
qed

text \<open>
  C6. \<open>fromString(s)\<close> throws a \<open>RangeError\<close> for every string that does not have length
  10 or does not match the format; for every well-formed string it reads the three groups
  as base-10 integers and hands them to the validating constructor, so that a string such
  as 2019-02-30, which names no calendar date, is refused as well.
\<close>

theorem fromString_validates:
  "(length s \<noteq> 10 \<or> \<not> matchesFormat s \<longrightarrow>
      fromString s = Inl (RangeError (if length s \<noteq> 10 then StrLength else StrFormat))) \<and>
   (matchesFormat s \<longrightarrow>
      fromString s =
        Datum_new
          (Integral (int (1000 * digitValue (s ! 0) + 100 * digitValue (s ! 1) +
                          10 * digitValue (s ! 2) + digitValue (s ! 3))))
          (Integral (int (10 * digitValue (s ! 5) + digitValue (s ! 6))))
          (Integral (int (10 * digitValue (s ! 8) + digitValue (s ! 9))))) \<and>
   fromString ''2019-02-30'' = Inl (RangeError DayExceedsMonth)"
  using fromString_malformed fromString_wellformed fromString_2019_02_30 by blast

theorem fromString_validates_witness:
  "fromString ''2019-2-30'' = Inl (RangeError StrLength) \<and>
   fromString ''2019/02/30'' = Inl (RangeError StrFormat) \<and>
   fromString ''2019-02-28'' = Datum_new (Integral 2019) (Integral 2) (Integral 28)"
proof -
  have 1: "length ''2019-2-30'' \<noteq> 10" by simp
  have 2: "\<not> matchesFormat ''2019/02/30''" "length ''2019/02/30'' = 10"
    by (simp_all add: matchesFormat_def)
  have 3: "matchesFormat ''2019-02-28''" by (simp add: matchesFormat_def isDigit_def)
  have 4: "digitValue CHR ''0'' = 0" "digitValue CHR ''1'' = 1" "digitValue CHR ''2'' = 2"
    "digitValue CHR ''8'' = 8" "digitValue CHR ''9'' = 9"
    by (simp_all add: digitValue_def)
  show ?thesis
    using fromString_validates [of "''2019-2-30''"] fromString_validates [of "''2019/02/30''"]
      fromString_validates [of "''2019-02-28''"] 1 2 3
    by (simp add: 4)
qed

text \<open>
  C10. The zero-padded string form is an order embedding: for all valid \<open>a\<close> and \<open>b\<close>,
  \<open>a.isBefore(b)\<close> holds if and only if \<open>toString(a)\<close> is smaller than \<open>toString(b)\<close> in the
  lexicographic order of strings, and \<open>a.isEqual(b)\<close> if and only if the two strings are
  equal.
\<close>

theorem toString_order_embedding:
  assumes "valid_datum a" "valid_datum b"
  shows "(isBefore a b \<longleftrightarrow> stringLess (toString a) (toString b)) \<and>
         (isEqual a b \<longleftrightarrow> toString a = toString b)"
  using toString_order [OF assms] by simp

theorem toString_order_embedding_witness:
  "isBefore \<lparr>year = 5, month = 12, day = 31\<rparr> \<lparr>year = 1000, month = 1, day = 1\<rparr> \<and>
   stringLess (toString \<lparr>year = 5, month = 12, day = 31\<rparr>)
              (toString \<lparr>year = 1000, month = 1, day = 1\<rparr>) \<and>
   toString \<lparr>year = 5, month = 12, day = 31\<rparr> \<noteq> toString \<lparr>year = 1000, month = 1, day = 1\<rparr>"
proof -
  have va: "valid_datum \<lparr>year = 5, month = 12, day = 31\<rparr>"
    by (simp add: valid_datum_def daysInMonth_def)
  have vb: "valid_datum \<lparr>year = 1000, month = 1, day = 1\<rparr>"
    by (simp add: valid_datum_def daysInMonth_def)
  have lt: "isBefore \<lparr>year = 5, month = 12, day = 31\<rparr> \<lparr>year = 1000, month = 1, day = 1\<rparr>"
    by (simp add: isBefore_def)
  have ne: "\<not> isEqual \<lparr>year = 5, month = 12, day = 31\<rparr> \<lparr>year = 1000, month = 1, day = 1\<rparr>"
    by (simp add: isEqual_def)
  show ?thesis
    using toString_order_embedding [OF va vb] lt ne by blast
qed

end
